theory Spec2Isabelle
  imports Main "HOL-Library.AList" "HOL-Library.Sublist" "HOL-Library.Code_Target_Nat"
begin

section \<open>The semver package, as far as merger.ts calls it\<close>

text \<open>
  merger.ts calls three functions of the external semver package: \<open>semver.coerce\<close>,
  \<open>semver.gt\<close> and \<open>semver.lt\<close>. They are modelled on what the package (version 7) does
  with default options: \<open>coerce\<close> takes the leftmost match of the pattern
  \<^verbatim>\<open>(^|[^\d])(\d{1,16})(?:\.(\d{1,16}))?(?:\.(\d{1,16}))?(?:$|[^\d])\<close>
  and hands \<open>major.minor.patch\<close> (absent groups read as 0) to the strict parser, whose
  exception it turns into null; \<open>gt\<close> and \<open>lt\<close> build a SemVer object of each argument,
  which throws a TypeError on an invalid version string, and compare major, minor and
  patch in this order.

  The strict parser is modelled on the plain form \<open>MAJOR.MINOR.PATCH\<close> only, the one form
  \<open>coerce\<close> ever builds. A string with a leading \<open>v\<close>, surrounding blanks, or a
  prerelease or build suffix is treated as invalid here; no call of merger.ts passes one.
\<close>

datatype error = TypeError

definition MAX_SAFE_INTEGER :: nat where
  "MAX_SAFE_INTEGER = 9007199254740991"

definition MAX_SAFE_COMPONENT_LENGTH :: nat where
  "MAX_SAFE_COMPONENT_LENGTH = 16"

definition MAX_LENGTH :: nat where
  "MAX_LENGTH = 256"

text \<open>The character class \<open>\d\<close>: the ASCII digits.\<close>

definition isDigit :: "char \<Rightarrow> bool" where
  "isDigit c = (48 \<le> (of_char c :: nat) \<and> (of_char c :: nat) \<le> 57)"

definition digitValue :: "char \<Rightarrow> nat" where
  "digitValue c = of_char c - 48"

definition digitChar :: "nat \<Rightarrow> char" where
  "digitChar n = char_of (n + 48)"

text \<open>
  \<open>+m[1]\<close>: the number a string of digits denotes. JavaScript rounds to a double; every
  value up to \<open>MAX_SAFE_INTEGER\<close> is exact and every larger one stays larger, so the test
  against \<open>MAX_SAFE_INTEGER\<close> comes out the same on the exact value.
\<close>

definition toNumber :: "string \<Rightarrow> nat" where
  "toNumber ds = foldl (\<lambda>n c. 10 * n + digitValue c) 0 ds"

text \<open>The decimal text of a number, as a template literal prints it.\<close>

fun numberToString :: "nat \<Rightarrow> string" where
  "numberToString n =
     (if n < 10 then [digitChar n]
      else numberToString (n div 10) @ [digitChar (n mod 10)])"

declare numberToString.simps [simp del]

record SemVer =
  major :: nat
  minor :: nat
  patch :: nat

text \<open>\<open>SemVer.format\<close>, which sets the \<open>version\<close> property of the object.\<close>

definition format :: "SemVer \<Rightarrow> string" where
  "format v = numberToString (major v) @ ''.'' @ numberToString (minor v) @ ''.'' @
     numberToString (patch v)"

text \<open>The pattern \<open>0|[1-9]\d*\<close> of a numeric identifier.\<close>

definition numericIdentifier :: "string \<Rightarrow> bool" where
  "numericIdentifier s =
     (s \<noteq> [] \<and> list_all isDigit s \<and> (s = ''0'' \<or> hd s \<noteq> CHR ''0''))"

text \<open>The three dot-separated digit groups of the main version, anchored at both ends.\<close>

definition splitMain :: "string \<Rightarrow> (string \<times> string \<times> string) option" where
  "splitMain s =
     (case dropWhile isDigit s of
        [] \<Rightarrow> None
      | c1 # r1 \<Rightarrow>
          (if c1 \<noteq> CHR ''.'' then None
           else
             (case dropWhile isDigit r1 of
                [] \<Rightarrow> None
              | c2 # r2 \<Rightarrow>
                  (if c2 \<noteq> CHR ''.'' then None
                   else if list_all isDigit r2
                   then Some (takeWhile isDigit s, takeWhile isDigit r1, r2)
                   else None))))"

text \<open>
  The constructor \<open>new SemVer(version)\<close>, which throws on a version that is too long, that
  does not match, or that has a component above \<open>MAX_SAFE_INTEGER\<close>.
\<close>

definition newSemVer :: "string \<Rightarrow> error + SemVer" where
  "newSemVer s =
     (if length s > MAX_LENGTH then Inl TypeError
      else
        (case splitMain s of
           None \<Rightarrow> Inl TypeError
         | Some (a, b, c) \<Rightarrow>
             (if \<not> (numericIdentifier a \<and> numericIdentifier b \<and> numericIdentifier c)
              then Inl TypeError
              else if toNumber a > MAX_SAFE_INTEGER then Inl TypeError
              else if toNumber b > MAX_SAFE_INTEGER then Inl TypeError
              else if toNumber c > MAX_SAFE_INTEGER then Inl TypeError
              else Inr \<lparr>major = toNumber a, minor = toNumber b, patch = toNumber c\<rparr>)))"

text \<open>\<open>parse\<close>: the constructor with its exception caught and turned into null.\<close>

definition semver_parse :: "string \<Rightarrow> SemVer option" where
  "semver_parse s = (case newSemVer s of Inl e \<Rightarrow> None | Inr v \<Rightarrow> Some v)"

text \<open>
  An optional group \<open>(?:\.(\d{1,16}))?\<close> of the coerce pattern at the head of the rest
  of the input. What follows the group in the pattern is another such group or
  \<open>(?:$|[^\d])\<close>, so the group can only take a whole run of digits: it matches when a dot
  and a run of 1 to 16 digits come next, and then returns the run and what follows it.
\<close>

definition coerceGroup :: "string \<Rightarrow> (string \<times> string) option" where
  "coerceGroup rest =
     (case rest of
        [] \<Rightarrow> None
      | c # r \<Rightarrow>
          (if c \<noteq> CHR ''.'' then None
           else
             (let run = takeWhile isDigit r in
              if 1 \<le> length run \<and> length run \<le> MAX_SAFE_COMPONENT_LENGTH
              then Some (run, dropWhile isDigit r)
              else None)))"

text \<open>
  The leftmost match of the coerce pattern. The first group has to start a run of digits
  (at the start of the input or after a character that is no digit) and to take the whole
  run, so a run of more than 16 digits is passed over. The flag says that the previous
  character is a digit. The result is \<open>match[2]\<close>, \<open>match[3] || '0'\<close>, \<open>match[4] || '0'\<close>.
\<close>

fun coerceMatch :: "bool \<Rightarrow> string \<Rightarrow> (string \<times> string \<times> string) option" where
  "coerceMatch prevDigit [] = None"
| "coerceMatch prevDigit (c # cs) =
     (if isDigit c \<and> \<not> prevDigit then
        (let run = takeWhile isDigit (c # cs); rest = dropWhile isDigit (c # cs) in
         if length run \<le> MAX_SAFE_COMPONENT_LENGTH then
           (case coerceGroup rest of
              None \<Rightarrow> Some (run, ''0'', ''0'')
            | Some (mi, rest') \<Rightarrow>
                (case coerceGroup rest' of
                   None \<Rightarrow> Some (run, mi, ''0'')
                 | Some (pa, rest'') \<Rightarrow> Some (run, mi, pa)))
         else coerceMatch True cs)
      else coerceMatch (isDigit c) cs)"

definition semver_coerce :: "string \<Rightarrow> SemVer option" where
  "semver_coerce version =
     (case coerceMatch False version of
        None \<Rightarrow> None
      | Some (ma, mi, pa) \<Rightarrow> semver_parse (ma @ ''.'' @ mi @ ''.'' @ pa))"

text \<open>\<open>compareIdentifiers\<close> on two numbers, and \<open>SemVer.compareMain\<close>.\<close>

definition compareIdentifiers :: "nat \<Rightarrow> nat \<Rightarrow> int" where
  "compareIdentifiers a b = (if a = b then 0 else if a < b then - 1 else 1)"

definition compareMain :: "SemVer \<Rightarrow> SemVer \<Rightarrow> int" where
  "compareMain x y =
     (if compareIdentifiers (major x) (major y) \<noteq> 0
      then compareIdentifiers (major x) (major y)
      else if compareIdentifiers (minor x) (minor y) \<noteq> 0
      then compareIdentifiers (minor x) (minor y)
      else compareIdentifiers (patch x) (patch y))"

definition semver_compare :: "string \<Rightarrow> string \<Rightarrow> error + int" where
  "semver_compare a b =
     (case newSemVer a of
        Inl e \<Rightarrow> Inl e
      | Inr x \<Rightarrow>
          (case newSemVer b of
             Inl e \<Rightarrow> Inl e
           | Inr y \<Rightarrow> Inr (compareMain x y)))"

definition semver_gt :: "string \<Rightarrow> string \<Rightarrow> error + bool" where
  "semver_gt a b =
     (case semver_compare a b of Inl e \<Rightarrow> Inl e | Inr c \<Rightarrow> Inr (c > 0))"

definition semver_lt :: "string \<Rightarrow> string \<Rightarrow> error + bool" where
  "semver_lt a b =
     (case semver_compare a b of Inl e \<Rightarrow> Inl e | Inr c \<Rightarrow> Inr (c < 0))"

section \<open>merger.ts: version comparison\<close>

text \<open>
  \<open>cleanVersion\<close> returns the \<open>version\<close> string of the coerced object, or null. The
  callers test the result for truthiness; the string is never empty, so null is the
  only falsy result and the tests are a case distinction on the option.
\<close>

definition cleanVersion :: "string \<Rightarrow> string option" where
  "cleanVersion version =
     (case semver_coerce version of None \<Rightarrow> None | Some cleaned \<Rightarrow> Some (format cleaned))"

record HigherVersion =
  selected :: string
  isV1Higher :: bool

definition selectHigherVersion :: "string \<Rightarrow> string \<Rightarrow> error + HigherVersion" where
  "selectHigherVersion v1 v2 =
     (case (cleanVersion v1, cleanVersion v2) of
        (None, None) \<Rightarrow> Inr \<lparr>selected = v1, isV1Higher = True\<rparr>
      | (None, Some clean2) \<Rightarrow> Inr \<lparr>selected = v2, isV1Higher = False\<rparr>
      | (Some clean1, None) \<Rightarrow> Inr \<lparr>selected = v1, isV1Higher = True\<rparr>
      | (Some clean1, Some clean2) \<Rightarrow>
          (case semver_gt clean1 clean2 of
             Inl e \<Rightarrow> Inl e
           | Inr True \<Rightarrow> Inr \<lparr>selected = v1, isV1Higher = True\<rparr>
           | Inr False \<Rightarrow>
               (case semver_gt clean2 clean1 of
                  Inl e \<Rightarrow> Inl e
                | Inr True \<Rightarrow> Inr \<lparr>selected = v2, isV1Higher = False\<rparr>
                | Inr False \<Rightarrow> Inr \<lparr>selected = v1, isV1Higher = True\<rparr>)))"

section \<open>types.ts and the containers of merger.ts\<close>

text \<open>
  A \<open>Record<string, string>\<close> that the merger reads is given by the list that
  \<open>Object.entries\<close> returns for it, in that order. \<open>RepoData.packageJson\<close> is not read
  by the merger and is left out.
\<close>

record RepoData =
  path :: string
  dependencies :: "(string \<times> string) list"
  devDependencies :: "(string \<times> string) list"

record OutdatedDep =
  name :: string
  currentVersion :: string
  selectedVersion :: string

record OutdatedReport =
  repoPath :: string
  outdatedDeps :: "OutdatedDep list"

text \<open>
  A \<open>Record<string, string>\<close> that the merger builds starts as the literal \<open>{}\<close>: an
  object with no property of its own, whose prototype is \<open>Object.prototype\<close>. It is
  given by the map of its own properties; what it inherits is the same for every such
  object and is written into the two operations the merger uses on it, \<open>setProperty\<close>
  and \<open>falsyProperty\<close> below.
\<close>

type_synonym object = "string \<rightharpoonup> string"

record MergeResult =
  mergedDependencies :: object
  mergedDevDependencies :: object
  outdatedReports :: "OutdatedReport list"

text \<open>
  The values of the two \<open>Map\<close>s of \<open>mergeDependencies\<close>. A \<open>Map\<close> keeps its keys in the
  order of their first insertion: it is an association list, \<open>get\<close> is \<open>map_of\<close> and
  \<open>set\<close> is \<open>AList.update\<close>, which overwrites in place or appends.

  A variable of the source that has the name of a field of one of these records is
  renamed in the functions below: \<open>name\<close> is \<open>pkgName\<close>, \<open>version\<close> is \<open>pkgVersion\<close>,
  the parameter \<open>repoPath\<close> is \<open>fromRepo\<close>, \<open>selected\<close> is \<open>selectedEntry\<close>,
  \<open>outdatedDeps\<close> is \<open>outdated\<close>, and the two merged objects are \<open>merged\<close> and
  \<open>mergedDev\<close>.
\<close>

record VersionEntry =
  version :: string
  sources :: "(string \<times> string) list"

type_synonym VersionMap = "(string \<times> VersionEntry) list"

section \<open>merger.ts: the merge\<close>

text \<open>
  \<open>processPackage\<close> changes the entry of the map in place; the model returns the new
  map. An exception of \<open>selectHigherVersion\<close> passes through.
\<close>

definition processPackage ::
  "VersionMap \<Rightarrow> string \<Rightarrow> string \<Rightarrow> string \<Rightarrow> error + VersionMap" where
  "processPackage versionMap pkgName pkgVersion fromRepo =
     (case map_of versionMap pkgName of
        None \<Rightarrow>
          Inr (AList.update pkgName
                 \<lparr>version = pkgVersion, sources = AList.update fromRepo pkgVersion []\<rparr>
                 versionMap)
      | Some existing \<Rightarrow>
          (let existing1 =
                 existing\<lparr>sources := AList.update fromRepo pkgVersion (sources existing)\<rparr> in
           case selectHigherVersion (version existing1) pkgVersion of
             Inl e \<Rightarrow> Inl e
           | Inr r \<Rightarrow>
               Inr (AList.update pkgName
                      (if \<not> isV1Higher r then existing1\<lparr>version := selected r\<rparr>
                       else existing1)
                      versionMap)))"

text \<open>The two inner loops of \<open>mergeDependencies\<close> over the entries of one repository.\<close>

fun processEntries ::
  "VersionMap \<Rightarrow> (string \<times> string) list \<Rightarrow> string \<Rightarrow> error + VersionMap" where
  "processEntries versionMap [] fromRepo = Inr versionMap"
| "processEntries versionMap ((pkgName, pkgVersion) # entries) fromRepo =
     (case processPackage versionMap pkgName pkgVersion fromRepo of
        Inl e \<Rightarrow> Inl e
      | Inr versionMap' \<Rightarrow> processEntries versionMap' entries fromRepo)"

text \<open>The outer loop of \<open>mergeDependencies\<close> over the repositories.\<close>

fun processRepos ::
  "VersionMap \<Rightarrow> VersionMap \<Rightarrow> RepoData list \<Rightarrow> error + VersionMap \<times> VersionMap" where
  "processRepos depVersions devDepVersions [] = Inr (depVersions, devDepVersions)"
| "processRepos depVersions devDepVersions (repo # repos) =
     (case processEntries depVersions (dependencies repo) (path repo) of
        Inl e \<Rightarrow> Inl e
      | Inr depVersions' \<Rightarrow>
          (case processEntries devDepVersions (devDependencies repo) (path repo) of
             Inl e \<Rightarrow> Inl e
           | Inr devDepVersions' \<Rightarrow> processRepos depVersions' devDepVersions' repos))"

text \<open>
  The names of the members of \<open>Object.prototype\<close>. Each of them is a function, but
  \<open>__proto__\<close>, an accessor whose getter returns the prototype and whose setter ignores
  a value that is neither an object nor null.
\<close>

definition objectPrototype :: "string list" where
  "objectPrototype =
     [''constructor'', ''__defineGetter__'', ''__defineSetter__'', ''hasOwnProperty'',
      ''__lookupGetter__'', ''__lookupSetter__'', ''isPrototypeOf'', ''propertyIsEnumerable'',
      ''toString'', ''valueOf'', ''__proto__'', ''toLocaleString'']"

text \<open>
  The assignment \<open>obj[key] = value\<close> of a string: it makes or overwrites an own property,
  except for the key \<open>__proto__\<close>, where it calls the inherited setter, which does nothing
  with a string.
\<close>

definition setProperty :: "object \<Rightarrow> string \<Rightarrow> string \<Rightarrow> object" where
  "setProperty obj key v = (if key = ''__proto__'' then obj else obj(key \<mapsto> v))"

text \<open>
  The test \<open>!obj[key]\<close>. An own property is a string, falsy when it is empty. Without an
  own property the read gives the inherited member, which is truthy, or undefined.
\<close>

definition falsyProperty :: "object \<Rightarrow> string \<Rightarrow> bool" where
  "falsyProperty obj key =
     (case obj key of
        Some s \<Rightarrow> s = []
      | None \<Rightarrow> key \<notin> set objectPrototype)"

text \<open>The loop that copies the selected versions into \<open>mergedDependencies\<close>.\<close>

fun buildMergedDependencies :: "VersionMap \<Rightarrow> object \<Rightarrow> object" where
  "buildMergedDependencies [] merged = merged"
| "buildMergedDependencies ((pkgName, data) # rest) merged =
     buildMergedDependencies rest (setProperty merged pkgName (version data))"

text \<open>The loop that builds \<open>mergedDevDependencies\<close>.\<close>

fun buildMergedDevDependencies :: "VersionMap \<Rightarrow> object \<Rightarrow> object \<Rightarrow> object" where
  "buildMergedDevDependencies [] merged mergedDev = mergedDev"
| "buildMergedDevDependencies ((pkgName, data) # rest) merged mergedDev =
     buildMergedDevDependencies rest merged
       (if falsyProperty merged pkgName
        then setProperty mergedDev pkgName (version data)
        else mergedDev)"

section \<open>merger.ts: the outdated reports\<close>

text \<open>
  The body that the two inner loops of \<open>buildOutdatedReports\<close> share: given the entry
  that the loop looked up, it pushes an \<open>OutdatedDep\<close> or leaves the list as it is.
\<close>

definition checkOutdated ::
  "VersionEntry option \<Rightarrow> string \<Rightarrow> string \<Rightarrow> OutdatedDep list \<Rightarrow> error + OutdatedDep list"
  where
  "checkOutdated selectedEntry pkgName pkgVersion outdated =
     (case selectedEntry of
        None \<Rightarrow> Inr outdated
      | Some sel \<Rightarrow>
          (if version sel \<noteq> pkgVersion then
             (case (cleanVersion pkgVersion, cleanVersion (version sel)) of
                (Some cleanCurrent, Some cleanSelected) \<Rightarrow>
                  (case semver_lt cleanCurrent cleanSelected of
                     Inl e \<Rightarrow> Inl e
                   | Inr True \<Rightarrow>
                       Inr (outdated @
                            [\<lparr>name = pkgName, currentVersion = pkgVersion,
                              selectedVersion = version sel\<rparr>])
                   | Inr False \<Rightarrow> Inr outdated)
              | _ \<Rightarrow> Inr outdated)
           else Inr outdated))"

text \<open>The loop over \<open>repo.dependencies\<close>.\<close>

fun checkDependencies ::
  "VersionMap \<Rightarrow> (string \<times> string) list \<Rightarrow> OutdatedDep list \<Rightarrow> error + OutdatedDep list"
  where
  "checkDependencies depVersions [] outdated = Inr outdated"
| "checkDependencies depVersions ((pkgName, pkgVersion) # entries) outdated =
     (case checkOutdated (map_of depVersions pkgName) pkgName pkgVersion outdated of
        Inl e \<Rightarrow> Inl e
      | Inr outdated' \<Rightarrow> checkDependencies depVersions entries outdated')"

text \<open>
  The loop over \<open>repo.devDependencies\<close>, which looks up
  \<open>devDepVersions.get(name) || depVersions.get(name)\<close>.
\<close>

fun checkDevDependencies ::
  "VersionMap \<Rightarrow> VersionMap \<Rightarrow> (string \<times> string) list \<Rightarrow> OutdatedDep list \<Rightarrow>
     error + OutdatedDep list" where
  "checkDevDependencies depVersions devDepVersions [] outdated = Inr outdated"
| "checkDevDependencies depVersions devDepVersions ((pkgName, pkgVersion) # entries) outdated =
     (case checkOutdated
             (case map_of devDepVersions pkgName of
                Some sel \<Rightarrow> Some sel
              | None \<Rightarrow> map_of depVersions pkgName)
             pkgName pkgVersion outdated of
        Inl e \<Rightarrow> Inl e
      | Inr outdated' \<Rightarrow>
          checkDevDependencies depVersions devDepVersions entries outdated')"

text \<open>The loop of \<open>buildOutdatedReports\<close> over the repositories, with the reports so far.\<close>

fun buildReports ::
  "RepoData list \<Rightarrow> VersionMap \<Rightarrow> VersionMap \<Rightarrow> OutdatedReport list \<Rightarrow>
     error + OutdatedReport list" where
  "buildReports [] depVersions devDepVersions reports = Inr reports"
| "buildReports (repo # repos) depVersions devDepVersions reports =
     (case checkDependencies depVersions (dependencies repo) [] of
        Inl e \<Rightarrow> Inl e
      | Inr outdated1 \<Rightarrow>
          (case checkDevDependencies depVersions devDepVersions (devDependencies repo)
                  outdated1 of
             Inl e \<Rightarrow> Inl e
           | Inr outdated \<Rightarrow>
               buildReports repos depVersions devDepVersions
                 (if length outdated > 0
                  then reports @ [\<lparr>repoPath = path repo, outdatedDeps = outdated\<rparr>]
                  else reports)))"

definition buildOutdatedReports ::
  "RepoData list \<Rightarrow> VersionMap \<Rightarrow> VersionMap \<Rightarrow> error + OutdatedReport list" where
  "buildOutdatedReports repoDataList depVersions devDepVersions =
     buildReports repoDataList depVersions devDepVersions []"

definition mergeDependencies :: "RepoData list \<Rightarrow> error + MergeResult" where
  "mergeDependencies repoDataList =
     (case processRepos [] [] repoDataList of
        Inl e \<Rightarrow> Inl e
      | Inr (depVersions, devDepVersions) \<Rightarrow>
          (let merged = buildMergedDependencies depVersions Map.empty;
               mergedDev = buildMergedDevDependencies devDepVersions merged Map.empty
           in
           case buildOutdatedReports repoDataList depVersions devDepVersions of
             Inl e \<Rightarrow> Inl e
           | Inr reports \<Rightarrow>
               Inr \<lparr>mergedDependencies = merged,
                    mergedDevDependencies = mergedDev,
                    outdatedReports = reports\<rparr>))"

section \<open>The vocabulary of the specification\<close>

text \<open>
  The specification speaks of the Concrete Version of a specifier, which \<open>Normalize\<close>
  computes, of the order of Concrete Versions, and of \<open>SelectHigher\<close> and \<open>IsLower\<close>. The
  definitions of this section follow its words; the theorems compare them with the code.
\<close>

definition Normalize :: "string \<Rightarrow> SemVer option" where
  "Normalize specifier = semver_coerce specifier"

text \<open>The order of Concrete Versions: by major, then minor, then patch.\<close>

definition lower :: "SemVer \<Rightarrow> SemVer \<Rightarrow> bool" where
  "lower x y =
     (major x < major y \<or>
      (major x = major y \<and> (minor x < minor y \<or> (minor x = minor y \<and> patch x < patch y))))"

text \<open>The six rules of \<open>SelectHigher\<close>, in the order of the specification.\<close>

definition SelectHigher :: "string \<Rightarrow> string \<Rightarrow> HigherVersion" where
  "SelectHigher specifierA specifierB =
     (case (Normalize specifierA, Normalize specifierB) of
        (None, None) \<Rightarrow> \<lparr>selected = specifierA, isV1Higher = True\<rparr>
      | (None, Some b) \<Rightarrow> \<lparr>selected = specifierB, isV1Higher = False\<rparr>
      | (Some a, None) \<Rightarrow> \<lparr>selected = specifierA, isV1Higher = True\<rparr>
      | (Some a, Some b) \<Rightarrow>
          (if lower b a then \<lparr>selected = specifierA, isV1Higher = True\<rparr>
           else if lower a b then \<lparr>selected = specifierB, isV1Higher = False\<rparr>
           else \<lparr>selected = specifierA, isV1Higher = True\<rparr>))"

definition IsLower :: "string \<Rightarrow> string \<Rightarrow> bool" where
  "IsLower current sel =
     (case (Normalize current, Normalize sel) of
        (Some c, Some s) \<Rightarrow> lower c s
      | _ \<Rightarrow> False)"

text \<open>
  The selection of one name in one class: the first declared specifier, then
  \<open>SelectHigher\<close> of the selection so far and each later one.
\<close>

definition pick :: "string option \<Rightarrow> string \<Rightarrow> string option" where
  "pick current specifier =
     (case current of
        None \<Rightarrow> Some specifier
      | Some a \<Rightarrow> Some (selected (SelectHigher a specifier)))"

definition selection :: "string list \<Rightarrow> string option" where
  "selection specifiers = foldl pick None specifiers"

text \<open>
  The specifiers that the repositories declare for a name in one class (\<open>dependencies\<close> or
  \<open>devDependencies\<close>), in the order in which the merge meets them.
\<close>

definition declared ::
  "(RepoData \<Rightarrow> (string \<times> string) list) \<Rightarrow> RepoData list \<Rightarrow> string \<Rightarrow> string list" where
  "declared cls repos pkgName =
     concat (map (\<lambda>repo. map snd (filter (\<lambda>d. fst d = pkgName) (cls repo))) repos)"

text \<open>
  The Outdated entry of one declaration, given the Selection Entry it is compared with:
  emitted when \<open>IsLower\<close> holds and the two specifiers differ as strings.
\<close>

definition outdatedEntry :: "VersionEntry option \<Rightarrow> string \<times> string \<Rightarrow> OutdatedDep option" where
  "outdatedEntry selectedEntry d =
     (case selectedEntry of
        None \<Rightarrow> None
      | Some sel \<Rightarrow>
          (if IsLower (snd d) (version sel) \<and> snd d \<noteq> version sel
           then Some \<lparr>name = fst d, currentVersion = snd d, selectedVersion = version sel\<rparr>
           else None))"

text \<open>The Selection Entry a development-class declaration is compared with.\<close>

definition devSelection :: "VersionMap \<Rightarrow> VersionMap \<Rightarrow> string \<Rightarrow> VersionEntry option" where
  "devSelection depVersions devDepVersions pkgName =
     (case map_of devDepVersions pkgName of
        Some sel \<Rightarrow> Some sel
      | None \<Rightarrow> map_of depVersions pkgName)"

text \<open>The Outdated entries of one repository, class by class, in declaration order.\<close>

definition outdatedNormal :: "VersionMap \<Rightarrow> RepoData \<Rightarrow> OutdatedDep list" where
  "outdatedNormal depVersions repo =
     List.map_filter (\<lambda>d. outdatedEntry (map_of depVersions (fst d)) d) (dependencies repo)"

definition outdatedDev :: "VersionMap \<Rightarrow> VersionMap \<Rightarrow> RepoData \<Rightarrow> OutdatedDep list" where
  "outdatedDev depVersions devDepVersions repo =
     List.map_filter (\<lambda>d. outdatedEntry (devSelection depVersions devDepVersions (fst d)) d)
       (devDependencies repo)"

definition outdatedOf :: "VersionMap \<Rightarrow> VersionMap \<Rightarrow> RepoData \<Rightarrow> OutdatedDep list" where
  "outdatedOf depVersions devDepVersions repo =
     outdatedNormal depVersions repo @ outdatedDev depVersions devDepVersions repo"

section \<open>The scenarios of the specification\<close>

text \<open>Scenario 1: three repositories declare lodash as a normal dependency.\<close>

definition scenario1 :: "RepoData list" where
  "scenario1 =
     [\<lparr>path = ''/repos/a'', dependencies = [(''lodash'', ''^4.17.0'')], devDependencies = []\<rparr>,
      \<lparr>path = ''/repos/b'', dependencies = [(''lodash'', ''^4.17.21'')], devDependencies = []\<rparr>,
      \<lparr>path = ''/repos/c'', dependencies = [(''lodash'', ''^4.16.0'')], devDependencies = []\<rparr>]"

text \<open>
  Scenario 3, with an empty specifier added: one repository declares a package by a git
  URL and another by a range.
\<close>

definition scenario3 :: "RepoData list" where
  "scenario3 =
     [\<lparr>path = ''/repos/a'',
       dependencies = [(''weird-pkg'', ''git+https://example.com/x.git''), (''any'', '''')],
       devDependencies = []\<rparr>,
      \<lparr>path = ''/repos/b'', dependencies = [(''weird-pkg'', ''^2.0.0'')], devDependencies = []\<rparr>]"

text \<open>
  Scenario 2: one repository declares left-pad as a development dependency, another as a
  normal dependency with a higher version.
\<close>

definition scenario2 :: "RepoData list" where
  "scenario2 =
     [\<lparr>path = ''/repos/a'', dependencies = [], devDependencies = [(''left-pad'', ''^1.0.0'')]\<rparr>,
      \<lparr>path = ''/repos/b'', dependencies = [(''left-pad'', ''^1.1.0'')], devDependencies = []\<rparr>]"

text \<open>
  A normal dependency with the empty specifier, and the same name as a development
  dependency of another repository.
\<close>

definition emptySpecifier :: "RepoData list" where
  "emptySpecifier =
     [\<lparr>path = ''/repos/a'', dependencies = [(''foo'', '''')], devDependencies = []\<rparr>,
      \<lparr>path = ''/repos/b'', dependencies = [], devDependencies = [(''foo'', ''^1.0.0'')]\<rparr>]"

text \<open>
  A name whose development-class selection is higher than its normal-class selection.
\<close>

definition devAboveNormal :: "RepoData list" where
  "devAboveNormal =
     [\<lparr>path = ''/repos/a'', dependencies = [], devDependencies = [(''foo'', ''^1.0.0'')]\<rparr>,
      \<lparr>path = ''/repos/b'', dependencies = [(''foo'', ''^1.5.0'')],
       devDependencies = [(''foo'', ''^2.0.0'')]\<rparr>]"

text \<open>
  Two repositories declare the name \<open>__proto__\<close> as a normal dependency, the second with
  the higher version.
\<close>

definition protoNormal :: "RepoData list" where
  "protoNormal =
     [\<lparr>path = ''/repos/a'', dependencies = [(''__proto__'', ''^1.0.0'')], devDependencies = []\<rparr>,
      \<lparr>path = ''/repos/b'', dependencies = [(''__proto__'', ''^2.0.0'')], devDependencies = []\<rparr>]"

section \<open>Facts about the semver functions\<close>

lemma digitChar_digitValue: "isDigit c \<Longrightarrow> digitChar (digitValue c) = c"
  by (simp add: isDigit_def digitChar_def digitValue_def)

lemma digitValue_less: "isDigit c \<Longrightarrow> digitValue c < 10"
  by (auto simp: isDigit_def digitValue_def)

lemma digitValue_zero: "isDigit c \<Longrightarrow> digitValue c = 0 \<Longrightarrow> c = CHR ''0''"
proof -
  assume d: "isDigit c" and z: "digitValue c = 0"
  from d z have "of_char c = (48::nat)" by (auto simp: isDigit_def digitValue_def)
  then have "(of_char c :: nat) = of_char CHR ''0''" by simp
  then show ?thesis by (simp only: of_char_eq_iff)
qed

lemma zero_roundtrip: "numberToString (toNumber ''0'') = ''0''"
  by code_simp

lemma toNumber_snoc: "toNumber (ds @ [d]) = 10 * toNumber ds + digitValue d"
  by (simp add: toNumber_def)

lemma toNumber_single: "toNumber [d] = digitValue d"
  by (simp add: toNumber_def)

lemma numberToString_digit: "n < 10 \<Longrightarrow> numberToString n = [digitChar n]"
  by (simp add: numberToString.simps)

lemma numberToString_step:
  "0 < n \<Longrightarrow> d < 10 \<Longrightarrow> numberToString (10 * n + d) = numberToString n @ [digitChar d]"
  by (subst numberToString.simps) simp

lemma digits_roundtrip:
  "ds \<noteq> [] \<Longrightarrow> list_all isDigit ds \<Longrightarrow> hd ds \<noteq> CHR ''0'' \<Longrightarrow>
     0 < toNumber ds \<and> numberToString (toNumber ds) = ds"
proof (induction ds rule: rev_induct)
  case Nil
  then show ?case by simp
next
  case (snoc d ds)
  have d: "isDigit d" using snoc.prems(2) by simp
  show ?case
  proof (cases "ds = []")
    case True
    with snoc.prems have "d \<noteq> CHR ''0''" by simp
    with d have "digitValue d \<noteq> 0" using digitValue_zero by blast
    with True d show ?thesis
      by (simp add: toNumber_single numberToString_digit digitValue_less digitChar_digitValue)
  next
    case False
    with snoc.prems have "list_all isDigit ds" "hd ds \<noteq> CHR ''0''" by auto
    with False snoc.IH have ih: "0 < toNumber ds" "numberToString (toNumber ds) = ds" by auto
    show ?thesis
      using ih d
      by (simp add: toNumber_snoc numberToString_step digitValue_less digitChar_digitValue)
  qed
qed

lemma numericIdentifier_roundtrip:
  "numericIdentifier s \<Longrightarrow> numberToString (toNumber s) = s"
proof -
  assume n: "numericIdentifier s"
  show ?thesis
  proof (cases "s = ''0''")
    case True
    then show ?thesis using zero_roundtrip by simp
  next
    case False
    with n show ?thesis using digits_roundtrip [of s] by (simp add: numericIdentifier_def)
  qed
qed

lemma splitMain_Some:
  "splitMain s = Some (a, b, c) \<Longrightarrow> s = a @ ''.'' @ b @ ''.'' @ c"
proof -
  assume h: "splitMain s = Some (a, b, c)"
  from h obtain r1 where r1: "dropWhile isDigit s = CHR ''.'' # r1"
    by (auto simp: splitMain_def split: list.splits if_splits)
  from h r1 obtain r2 where r2: "dropWhile isDigit r1 = CHR ''.'' # r2"
    by (auto simp: splitMain_def split: list.splits if_splits)
  from h r1 r2 have abc: "a = takeWhile isDigit s" "b = takeWhile isDigit r1" "c = r2"
    by (auto simp: splitMain_def split: list.splits if_splits)
  have "s = takeWhile isDigit s @ dropWhile isDigit s" by simp
  also have "\<dots> = a @ CHR ''.'' # r1" using r1 abc by simp
  also have "r1 = takeWhile isDigit r1 @ dropWhile isDigit r1" by simp
  also have "\<dots> = b @ CHR ''.'' # c" using r2 abc by simp
  finally show ?thesis by simp
qed

lemma newSemVer_format: "newSemVer s = Inr v \<Longrightarrow> format v = s"
proof -
  assume h: "newSemVer s = Inr v"
  then obtain a b c where sp: "splitMain s = Some (a, b, c)"
    by (auto simp: newSemVer_def split: option.splits if_splits)
  with h have ids: "numericIdentifier a" "numericIdentifier b" "numericIdentifier c"
    and v: "v = \<lparr>major = toNumber a, minor = toNumber b, patch = toNumber c\<rparr>"
    by (auto simp: newSemVer_def split: if_splits)
  from v ids have "format v = a @ ''.'' @ b @ ''.'' @ c"
    by (simp add: format_def numericIdentifier_roundtrip)
  with sp show ?thesis using splitMain_Some by simp
qed

lemma semver_coerce_valid: "semver_coerce s = Some v \<Longrightarrow> newSemVer (format v) = Inr v"
proof -
  assume h: "semver_coerce s = Some v"
  then obtain t where "semver_parse t = Some v"
    by (auto simp: semver_coerce_def split: option.splits)
  then have t: "newSemVer t = Inr v"
    by (auto simp: semver_parse_def split: sum.splits)
  then have "format v = t" by (rule newSemVer_format)
  with t show ?thesis by simp
qed

section \<open>The code against the vocabulary of the specification\<close>

lemma compareMain_gt: "(compareMain x y > 0) = lower y x"
  by (auto simp: compareMain_def compareIdentifiers_def lower_def)

lemma compareMain_lt: "(compareMain x y < 0) = lower x y"
  by (auto simp: compareMain_def compareIdentifiers_def lower_def)

lemma lower_irrefl: "\<not> lower x x"
  by (simp add: lower_def)

lemma lower_trans: "lower x y \<Longrightarrow> lower y z \<Longrightarrow> lower x z"
  by (auto simp: lower_def)

lemma lower_asym: "lower x y \<Longrightarrow> \<not> lower y x"
  by (auto simp: lower_def)

lemma lower_total: "\<not> lower x y \<Longrightarrow> \<not> lower y x \<Longrightarrow> (x::SemVer) = y"
  by (cases x, cases y) (auto simp: lower_def)

lemma cleanVersion_Normalize: "cleanVersion s = map_option format (Normalize s)"
  by (simp add: cleanVersion_def Normalize_def split: option.splits)

text \<open>The string that \<open>cleanVersion\<close> returns is never empty, so only null is falsy.\<close>

lemma cleanVersion_not_empty: "cleanVersion s \<noteq> Some []"
  by (simp add: cleanVersion_def format_def split: option.splits)

lemma semver_gt_format:
  "Normalize a = Some x \<Longrightarrow> Normalize b = Some y \<Longrightarrow>
     semver_gt (format x) (format y) = Inr (lower y x)"
  by (simp add: semver_gt_def semver_compare_def Normalize_def semver_coerce_valid compareMain_gt)

lemma semver_lt_format:
  "Normalize a = Some x \<Longrightarrow> Normalize b = Some y \<Longrightarrow>
     semver_lt (format x) (format y) = Inr (lower x y)"
  by (simp add: semver_lt_def semver_compare_def Normalize_def semver_coerce_valid compareMain_lt)

lemma selectHigherVersion_eq: "selectHigherVersion a b = Inr (SelectHigher a b)"
proof (cases "Normalize a")
  case None
  then show ?thesis
    by (cases "Normalize b")
      (simp_all add: selectHigherVersion_def SelectHigher_def cleanVersion_Normalize)
next
  case (Some x)
  show ?thesis
  proof (cases "Normalize b")
    case None
    with Some show ?thesis
      by (simp add: selectHigherVersion_def SelectHigher_def cleanVersion_Normalize)
  next
    case (Some y)
    from \<open>Normalize a = Some x\<close> Some show ?thesis
      by (simp add: selectHigherVersion_def SelectHigher_def cleanVersion_Normalize
          semver_gt_format [of a x b y] semver_gt_format [of b y a x])
  qed
qed

lemma SelectHigher_isV1Higher: "isV1Higher (SelectHigher a b) \<Longrightarrow> selected (SelectHigher a b) = a"
  by (auto simp: SelectHigher_def split: option.splits if_splits)

lemma processPackage_eq:
  "processPackage m n v p =
     Inr (AList.update n
            (case map_of m n of
               None \<Rightarrow> \<lparr>version = v, sources = [(p, v)]\<rparr>
             | Some e \<Rightarrow> \<lparr>version = selected (SelectHigher (version e) v),
                          sources = AList.update p v (sources e)\<rparr>) m)"
proof (cases "map_of m n")
  case None
  then show ?thesis by (simp add: processPackage_def)
next
  case (Some e)
  then show ?thesis
    by (cases e) (auto simp: processPackage_def selectHigherVersion_eq Let_def
        SelectHigher_isV1Higher)
qed

lemma processPackage_version:
  "processPackage m n v p = Inr m' \<Longrightarrow>
     map_option version (map_of m' k) =
       (if k = n then pick (map_option version (map_of m n)) v
        else map_option version (map_of m k))"
  by (auto simp: processPackage_eq update_conv' pick_def split: option.splits)

lemma processPackage_distinct:
  "processPackage m n v p = Inr m' \<Longrightarrow> distinct (map fst m) \<Longrightarrow> distinct (map fst m')"
  by (auto simp: processPackage_eq distinct_update)

lemma processEntries_total: "\<exists>m'. processEntries m es p = Inr m'"
  by (induction es arbitrary: m) (auto simp: processPackage_eq)

lemma processEntries_distinct:
  "processEntries m es p = Inr m' \<Longrightarrow> distinct (map fst m) \<Longrightarrow> distinct (map fst m')"
proof (induction es arbitrary: m)
  case Nil
  then show ?case by simp
next
  case (Cons d es)
  obtain n v where d: "d = (n, v)" by (cases d)
  obtain m1 where m1: "processPackage m n v p = Inr m1" by (simp add: processPackage_eq)
  with Cons.prems d have "processEntries m1 es p = Inr m'" by simp
  moreover have "distinct (map fst m1)" using m1 Cons.prems(2) by (rule processPackage_distinct)
  ultimately show ?case by (rule Cons.IH)
qed

lemma processEntries_version:
  "processEntries m es p = Inr m' \<Longrightarrow>
     map_option version (map_of m' k) =
       foldl pick (map_option version (map_of m k)) (map snd (filter (\<lambda>d. fst d = k) es))"
proof (induction es arbitrary: m)
  case Nil
  then show ?case by simp
next
  case (Cons d es)
  obtain n v where d: "d = (n, v)" by (cases d)
  obtain m1 where m1: "processPackage m n v p = Inr m1" by (simp add: processPackage_eq)
  with Cons.prems d have "processEntries m1 es p = Inr m'" by simp
  then have "map_option version (map_of m' k) =
       foldl pick (map_option version (map_of m1 k)) (map snd (filter (\<lambda>d. fst d = k) es))"
    by (rule Cons.IH)
  then show ?case using processPackage_version [OF m1, of k] d by simp
qed

lemma processRepos_total: "\<exists>dv' ddv'. processRepos dv ddv repos = Inr (dv', ddv')"
proof (induction repos arbitrary: dv ddv)
  case Nil
  then show ?case by simp
next
  case (Cons r repos)
  obtain dv1 where dv1: "processEntries dv (dependencies r) (path r) = Inr dv1"
    using processEntries_total by blast
  obtain ddv1 where ddv1: "processEntries ddv (devDependencies r) (path r) = Inr ddv1"
    using processEntries_total by blast
  from Cons.IH [of dv1 ddv1] dv1 ddv1 show ?case by simp
qed

lemma processRepos_props:
  "processRepos dv ddv repos = Inr (dv', ddv') \<Longrightarrow>
     (distinct (map fst dv) \<longrightarrow> distinct (map fst dv')) \<and>
     (distinct (map fst ddv) \<longrightarrow> distinct (map fst ddv')) \<and>
     map_option version (map_of dv' k) =
       foldl pick (map_option version (map_of dv k)) (declared dependencies repos k) \<and>
     map_option version (map_of ddv' k) =
       foldl pick (map_option version (map_of ddv k)) (declared devDependencies repos k)"
proof (induction repos arbitrary: dv ddv)
  case Nil
  then show ?case by (simp add: declared_def)
next
  case (Cons r repos)
  obtain dv1 where dv1: "processEntries dv (dependencies r) (path r) = Inr dv1"
    using processEntries_total by blast
  obtain ddv1 where ddv1: "processEntries ddv (devDependencies r) (path r) = Inr ddv1"
    using processEntries_total by blast
  from Cons.prems dv1 ddv1 have rest: "processRepos dv1 ddv1 repos = Inr (dv', ddv')" by simp
  note ih = Cons.IH [OF rest]
  show ?case
    using ih processEntries_distinct [OF dv1] processEntries_distinct [OF ddv1]
      processEntries_version [OF dv1, of k] processEntries_version [OF ddv1, of k]
    by (simp add: declared_def)
qed

lemma buildMergedDependencies_lookup:
  "distinct (map fst m) \<Longrightarrow>
     buildMergedDependencies m acc k =
       (if k = ''__proto__'' then acc k
        else case map_of m k of None \<Rightarrow> acc k | Some e \<Rightarrow> Some (version e))"
proof (induction m arbitrary: acc)
  case Nil
  then show ?case by simp
next
  case (Cons d m)
  obtain n e where d: "d = (n, e)" by (cases d)
  from Cons.prems d have dist: "distinct (map fst m)" and notin: "n \<notin> fst ` set m" by auto
  from notin have none: "map_of m n = None" by (simp add: map_of_eq_None_iff)
  define acc' where "acc' = setProperty acc n (version e)"
  have "buildMergedDependencies m acc' k =
      (if k = ''__proto__'' then acc' k
       else case map_of m k of None \<Rightarrow> acc' k | Some e' \<Rightarrow> Some (version e'))"
    using dist by (rule Cons.IH)
  with none d show ?case
    by (cases "k = n") (auto simp: acc'_def setProperty_def split: option.splits)
qed

lemma buildMergedDevDependencies_lookup:
  "distinct (map fst m) \<Longrightarrow>
     buildMergedDevDependencies m merged acc k =
       (if k = ''__proto__'' then acc k
        else case map_of m k of
               None \<Rightarrow> acc k
             | Some e \<Rightarrow> if falsyProperty merged k then Some (version e) else acc k)"
proof (induction m arbitrary: acc)
  case Nil
  then show ?case by simp
next
  case (Cons d m)
  obtain n e where d: "d = (n, e)" by (cases d)
  from Cons.prems d have dist: "distinct (map fst m)" and notin: "n \<notin> fst ` set m" by auto
  from notin have none: "map_of m n = None" by (simp add: map_of_eq_None_iff)
  define acc' where
    "acc' = (if falsyProperty merged n then setProperty acc n (version e) else acc)"
  have "buildMergedDevDependencies m merged acc' k =
      (if k = ''__proto__'' then acc' k
       else case map_of m k of
              None \<Rightarrow> acc' k
            | Some e' \<Rightarrow> if falsyProperty merged k then Some (version e') else acc' k)"
    using dist by (rule Cons.IH)
  with none d show ?case
    by (cases "k = n") (auto simp: acc'_def setProperty_def split: option.splits)
qed

lemma checkOutdated_eq:
  "checkOutdated sel n v out =
     Inr (out @ (case outdatedEntry sel (n, v) of None \<Rightarrow> [] | Some e \<Rightarrow> [e]))"
proof (cases sel)
  case None
  then show ?thesis by (simp add: checkOutdated_def outdatedEntry_def)
next
  case (Some s)
  show ?thesis
  proof (cases "Normalize v")
    case None
    with Some show ?thesis
      by (simp add: checkOutdated_def outdatedEntry_def IsLower_def cleanVersion_Normalize)
  next
    case c: (Some c)
    show ?thesis
    proof (cases "Normalize (version s)")
      case None
      with Some c show ?thesis
        by (simp add: checkOutdated_def outdatedEntry_def IsLower_def cleanVersion_Normalize)
    next
      case cs: (Some cs)
      have "version s = v \<Longrightarrow> \<not> lower c cs" using c cs by (auto simp: lower_irrefl)
      with Some c cs show ?thesis
        by (auto simp: checkOutdated_def outdatedEntry_def IsLower_def cleanVersion_Normalize
            semver_lt_format [of v c "version s" cs])
    qed
  qed
qed

lemma checkDependencies_eq:
  "checkDependencies dv es out =
     Inr (out @ List.map_filter (\<lambda>d. outdatedEntry (map_of dv (fst d)) d) es)"
proof (induction es arbitrary: out)
  case Nil
  then show ?case by (simp add: List.map_filter_def)
next
  case (Cons d es)
  obtain n v where d: "d = (n, v)" by (cases d)
  show ?case unfolding d by (simp add: checkOutdated_eq Cons.IH split: option.splits)
qed

lemma checkDevDependencies_eq:
  "checkDevDependencies dv ddv es out =
     Inr (out @ List.map_filter (\<lambda>d. outdatedEntry (devSelection dv ddv (fst d)) d) es)"
proof (induction es arbitrary: out)
  case Nil
  then show ?case by (simp add: List.map_filter_def)
next
  case (Cons d es)
  obtain n v where d: "d = (n, v)" by (cases d)
  have sel: "(case map_of ddv n of Some sel \<Rightarrow> Some sel | None \<Rightarrow> map_of dv n) = devSelection dv ddv n"
    by (simp add: devSelection_def)
  show ?case unfolding d by (simp add: sel checkOutdated_eq Cons.IH split: option.splits)
qed

lemma buildReports_eq:
  "buildReports repos dv ddv reports =
     Inr (reports @
          map (\<lambda>r. \<lparr>repoPath = path r, outdatedDeps = outdatedOf dv ddv r\<rparr>)
            (filter (\<lambda>r. outdatedOf dv ddv r \<noteq> []) repos))"
proof (induction repos arbitrary: reports)
  case Nil
  then show ?case by simp
next
  case (Cons r repos)
  show ?case
    by (simp add: checkDependencies_eq checkDevDependencies_eq Cons.IH outdatedOf_def
        outdatedNormal_def outdatedDev_def)
qed

lemma mergeDependencies_eq:
  "processRepos [] [] repos = Inr (dv, ddv) \<Longrightarrow>
     mergeDependencies repos =
       Inr \<lparr>mergedDependencies = buildMergedDependencies dv Map.empty,
            mergedDevDependencies =
              buildMergedDevDependencies ddv (buildMergedDependencies dv Map.empty) Map.empty,
            outdatedReports =
              map (\<lambda>r. \<lparr>repoPath = path r, outdatedDeps = outdatedOf dv ddv r\<rparr>)
                (filter (\<lambda>r. outdatedOf dv ddv r \<noteq> []) repos)\<rparr>"
  by (simp add: mergeDependencies_def buildOutdatedReports_def buildReports_eq Let_def)

lemma processRepos_initial:
  "processRepos [] [] repos = Inr (dv, ddv) \<Longrightarrow>
     distinct (map fst dv) \<and> distinct (map fst ddv) \<and>
     map_option version (map_of dv k) = selection (declared dependencies repos k) \<and>
     map_option version (map_of ddv k) = selection (declared devDependencies repos k)"
  using processRepos_props [of "[]" "[]" repos dv ddv k] by (simp add: selection_def)

section \<open>The selection of a name\<close>

text \<open>What the selection of a non-empty list of specifiers satisfies.\<close>

lemma selection_snoc: "selection (vs @ [v]) = pick (selection vs) v"
  by (simp add: selection_def)

lemma selection_invariant:
  "vs \<noteq> [] \<Longrightarrow>
     \<exists>s. selection vs = Some s \<and> s \<in> set vs \<and>
       (case Normalize s of
          None \<Rightarrow> \<forall>v\<in>set vs. Normalize v = None
        | Some cs \<Rightarrow> \<forall>v\<in>set vs. \<forall>c. Normalize v = Some c \<longrightarrow> \<not> lower cs c)"
proof (induction vs rule: rev_induct)
  case Nil
  then show ?case by simp
next
  case (snoc v vs)
  show ?case
  proof (cases "vs = []")
    case True
    then show ?thesis
      by (auto simp: selection_def pick_def lower_irrefl split: option.splits)
  next
    case False
    with snoc.IH obtain a where a: "selection vs = Some a" "a \<in> set vs"
      and inv: "case Normalize a of
          None \<Rightarrow> \<forall>v\<in>set vs. Normalize v = None
        | Some cs \<Rightarrow> \<forall>v\<in>set vs. \<forall>c. Normalize v = Some c \<longrightarrow> \<not> lower cs c"
      by blast
    have sel: "selection (vs @ [v]) = Some (selected (SelectHigher a v))"
      using a by (simp add: selection_snoc pick_def)
    show ?thesis
    proof (cases "Normalize a")
      case None
      with inv have allNone: "\<forall>w\<in>set vs. Normalize w = None" by simp
      show ?thesis
      proof (cases "Normalize v")
        case None
        with \<open>Normalize a = None\<close> allNone a sel show ?thesis
          by (simp add: SelectHigher_def)
      next
        case (Some c)
        with \<open>Normalize a = None\<close> allNone a sel show ?thesis
          by (simp add: SelectHigher_def lower_irrefl)
      qed
    next
      case (Some ca)
      with inv have top: "\<forall>w\<in>set vs. \<forall>c. Normalize w = Some c \<longrightarrow> \<not> lower ca c" by simp
      show ?thesis
      proof (cases "Normalize v")
        case None
        with Some top a sel show ?thesis by (simp add: SelectHigher_def)
      next
        case c: (Some c)
        show ?thesis
        proof (cases "lower ca c")
          case True
          then have nb: "\<not> lower c ca" by (rule lower_asym)
          have "\<forall>w\<in>set vs. \<forall>d. Normalize w = Some d \<longrightarrow> \<not> lower c d"
          proof (intro ballI allI impI)
            fix w d assume w: "w \<in> set vs" "Normalize w = Some d"
            with top have "\<not> lower ca d" by blast
            show "\<not> lower c d"
            proof
              assume "lower c d"
              with True have "lower ca d" by (rule lower_trans)
              with \<open>\<not> lower ca d\<close> show False by contradiction
            qed
          qed
          with Some c True nb a sel show ?thesis
            by (simp add: SelectHigher_def lower_irrefl)
        next
          case False
          with Some c top a sel show ?thesis
            by (auto simp: SelectHigher_def)
        qed
      qed
    qed
  qed
qed

lemma selection_None: "selection vs = None \<longleftrightarrow> vs = []"
proof
  assume "selection vs = None"
  then show "vs = []" using selection_invariant [of vs] by auto
next
  assume "vs = []"
  then show "selection vs = None" by (simp add: selection_def)
qed

lemma selection_member: "selection vs = Some s \<Longrightarrow> s \<in> set vs"
  using selection_invariant [of vs] by (cases "vs = []") (auto simp: selection_def)

lemma selection_highest:
  "v \<in> set vs \<Longrightarrow> Normalize v = Some c \<Longrightarrow>
     \<exists>s cs. selection vs = Some s \<and> Normalize s = Some cs \<and>
       (\<forall>w\<in>set vs. \<forall>d. Normalize w = Some d \<longrightarrow> \<not> lower cs d)"
proof -
  assume v: "v \<in> set vs" "Normalize v = Some c"
  then have "vs \<noteq> []" by auto
  from selection_invariant [OF this] obtain s where s: "selection vs = Some s"
    and inv: "case Normalize s of
          None \<Rightarrow> \<forall>v\<in>set vs. Normalize v = None
        | Some cs \<Rightarrow> \<forall>v\<in>set vs. \<forall>c. Normalize v = Some c \<longrightarrow> \<not> lower cs c"
    by blast
  show ?thesis
  proof (cases "Normalize s")
    case None
    with inv v show ?thesis by auto
  next
    case (Some cs)
    with inv s show ?thesis by auto
  qed
qed

lemma declared_member:
  "v \<in> set (declared cls repos n) \<longleftrightarrow> (\<exists>r\<in>set repos. (n, v) \<in> set (cls r))"
  by (force simp: declared_def)

section \<open>What the loops of the merge compute\<close>

lemma selected_normal:
  "processRepos [] [] repos = Inr (dv, ddv) \<Longrightarrow>
     map_option version (map_of dv k) = selection (declared dependencies repos k)"
  using processRepos_initial [of repos dv ddv k] by blast

lemma selected_dev:
  "processRepos [] [] repos = Inr (dv, ddv) \<Longrightarrow>
     map_option version (map_of ddv k) = selection (declared devDependencies repos k)"
  using processRepos_initial [of repos dv ddv k] by blast

lemma processRepos_distinct:
  "processRepos [] [] repos = Inr (dv, ddv) \<Longrightarrow>
     distinct (map fst dv) \<and> distinct (map fst ddv)"
  using processRepos_initial [of repos dv ddv undefined] by blast

lemma merged_lookup:
  "mergeDependencies repos = Inr result \<Longrightarrow> processRepos [] [] repos = Inr (dv, ddv) \<Longrightarrow>
     mergedDependencies result k =
       (if k = ''__proto__'' then None else selection (declared dependencies repos k))"
proof -
  assume m: "mergeDependencies repos = Inr result" and p: "processRepos [] [] repos = Inr (dv, ddv)"
  have dist: "distinct (map fst dv)" using processRepos_distinct [OF p] by blast
  have sel: "map_option version (map_of dv k) = selection (declared dependencies repos k)"
    using p by (rule selected_normal)
  from m mergeDependencies_eq [OF p]
  have "mergedDependencies result k = buildMergedDependencies dv Map.empty k" by auto
  also have "\<dots> = (if k = ''__proto__'' then None else map_option version (map_of dv k))"
    using dist by (simp add: buildMergedDependencies_lookup split: option.splits)
  finally show ?thesis using sel by simp
qed

lemma not_lower_le: "\<not> lower cs d \<Longrightarrow> lower d cs \<or> d = cs"
  using lower_total by blast

lemma declared_top:
  assumes "\<forall>w\<in>set (declared cls repos n). \<forall>d. Normalize w = Some d \<longrightarrow> \<not> lower cs d"
  shows "\<forall>r\<in>set repos. \<forall>v d.
      (n, v) \<in> set (cls r) \<and> Normalize v = Some d \<longrightarrow> lower d cs \<or> d = cs"
proof (intro ballI allI impI)
  fix r v d
  assume r: "r \<in> set repos" and v: "(n, v) \<in> set (cls r) \<and> Normalize v = Some d"
  then have "v \<in> set (declared cls repos n)" by (auto simp: declared_member)
  with assms v have "\<not> lower cs d" by blast
  then show "lower d cs \<or> d = cs" by (rule not_lower_le)
qed

lemma scenario1_evaluated:
  "(case mergeDependencies scenario1 of
      Inl e \<Rightarrow> False
    | Inr r \<Rightarrow> mergedDependencies r ''lodash'' = Some ''^4.17.21'')"
  by code_simp

lemma mergeDependencies_total: "\<exists>result. mergeDependencies repos = Inr result"
proof -
  obtain dv ddv where "processRepos [] [] repos = Inr (dv, ddv)"
    using processRepos_total by blast
  then show ?thesis using mergeDependencies_eq by blast
qed

section \<open>Specifiers without a digit\<close>

lemma coerceMatch_no_digit: "list_all (\<lambda>c. \<not> isDigit c) s \<Longrightarrow> coerceMatch prev s = None"
  by (induction s arbitrary: prev) simp_all

lemma cleanVersion_no_digit: "list_all (\<lambda>c. \<not> isDigit c) s \<Longrightarrow> cleanVersion s = None"
  by (simp add: cleanVersion_def semver_coerce_def coerceMatch_no_digit)

section \<open>The Outdated entries and their order\<close>

lemma outdatedEntry_Some:
  "outdatedEntry selectedEntry (n, v) = Some e \<longleftrightarrow>
     (\<exists>sel c s. selectedEntry = Some sel \<and> Normalize v = Some c \<and>
        Normalize (version sel) = Some s \<and> lower c s \<and> v \<noteq> version sel \<and>
        e = \<lparr>name = n, currentVersion = v, selectedVersion = version sel\<rparr>)"
  by (auto simp: outdatedEntry_def IsLower_def split: option.splits)

lemma map_filter_subseq:
  assumes "\<And>d e. f d = Some e \<Longrightarrow> g e = d"
  shows "subseq (map g (List.map_filter f xs)) xs"
proof (induction xs)
  case Nil
  then show ?case by simp
next
  case (Cons x xs)
  show ?case
  proof (cases "f x")
    case None
    then have "List.map_filter f (x # xs) = List.map_filter f xs"
      by simp
    with Cons show ?thesis using subseq_drop_many [of _ xs "[x]"] by simp
  next
    case (Some e)
    with assms have "g e = x" by blast
    moreover from Some have "List.map_filter f (x # xs) = e # List.map_filter f xs"
      by simp
    ultimately show ?thesis using Cons by simp
  qed
qed

lemma outdatedEntry_decl:
  "outdatedEntry sel d = Some e \<Longrightarrow> (name e, currentVersion e) = d"
  by (cases d) (auto simp: outdatedEntry_def split: option.splits if_splits)

lemma outdatedNormal_subseq:
  "subseq (map (\<lambda>e. (name e, currentVersion e)) (outdatedNormal dv r)) (dependencies r)"
  unfolding outdatedNormal_def by (rule map_filter_subseq) (rule outdatedEntry_decl)

lemma outdatedDev_subseq:
  "subseq (map (\<lambda>e. (name e, currentVersion e)) (outdatedDev dv ddv r)) (devDependencies r)"
  unfolding outdatedDev_def by (rule map_filter_subseq) (rule outdatedEntry_decl)

lemma reports_subseq:
  "subseq (map repoPath (map (\<lambda>r. \<lparr>repoPath = path r, outdatedDeps = f r\<rparr>) (filter P repos)))
     (map path repos)"
proof -
  have "map repoPath (map (\<lambda>r. \<lparr>repoPath = path r, outdatedDeps = f r\<rparr>) (filter P repos)) =
      map path (filter P repos)"
    by simp
  moreover have "subseq (map path (filter P repos)) (map path repos)"
    by (rule subseq_map) simp
  ultimately show ?thesis by (simp only:)
qed

lemma scenario1_reports:
  "(case mergeDependencies scenario1 of
      Inl e \<Rightarrow> False
    | Inr r \<Rightarrow> outdatedReports r =
        [\<lparr>repoPath = ''/repos/a'', outdatedDeps =
            [\<lparr>name = ''lodash'', currentVersion = ''^4.17.0'', selectedVersion = ''^4.17.21''\<rparr>]\<rparr>,
         \<lparr>repoPath = ''/repos/c'', outdatedDeps =
            [\<lparr>name = ''lodash'', currentVersion = ''^4.16.0'', selectedVersion = ''^4.17.21''\<rparr>]\<rparr>])"
  by code_simp

section \<open>The values of the merged mappings and of the Outdated entries\<close>

lemma in_map_filter:
  "e \<in> set (List.map_filter f xs) \<longleftrightarrow> (\<exists>x\<in>set xs. f x = Some e)"
  by (induction xs) (auto split: option.splits)

lemma merged_fields:
  assumes merge: "mergeDependencies repos = Inr result"
    and maps: "processRepos [] [] repos = Inr (dv, ddv)"
  shows "mergedDependencies result = buildMergedDependencies dv Map.empty"
    and "mergedDevDependencies result =
      buildMergedDevDependencies ddv (buildMergedDependencies dv Map.empty) Map.empty"
    and "outdatedReports result =
      map (\<lambda>r. \<lparr>repoPath = path r, outdatedDeps = outdatedOf dv ddv r\<rparr>)
        (filter (\<lambda>r. outdatedOf dv ddv r \<noteq> []) repos)"
  using merge mergeDependencies_eq [OF maps] by auto

lemma mergedDev_lookup:
  assumes merge: "mergeDependencies repos = Inr result"
    and maps: "processRepos [] [] repos = Inr (dv, ddv)"
  shows "mergedDevDependencies result k =
     (if k = ''__proto__'' then None
      else case selection (declared devDependencies repos k) of
             None \<Rightarrow> None
           | Some s \<Rightarrow> if falsyProperty (mergedDependencies result) k then Some s else None)"
proof -
  have dist: "distinct (map fst ddv)" using processRepos_distinct [OF maps] by blast
  have sel: "map_option version (map_of ddv k) = selection (declared devDependencies repos k)"
    using maps by (rule selected_dev)
  have "mergedDevDependencies result k =
      (if k = ''__proto__'' then None
       else case map_of ddv k of
              None \<Rightarrow> None
            | Some e \<Rightarrow>
                if falsyProperty (mergedDependencies result) k then Some (version e) else None)"
    unfolding merged_fields [OF merge maps] using dist
    by (simp add: buildMergedDevDependencies_lookup)
  with sel [symmetric] show ?thesis by (cases "map_of ddv k") simp_all
qed

lemma outdatedNormal_entry:
  assumes maps: "processRepos [] [] repos = Inr (dv, ddv)"
    and e: "e \<in> set (outdatedNormal dv r)"
  shows "selection (declared dependencies repos (name e)) = Some (selectedVersion e)"
proof -
  from e obtain d where d: "d \<in> set (dependencies r)"
    and out: "outdatedEntry (map_of dv (fst d)) d = Some e"
    by (auto simp: outdatedNormal_def in_map_filter)
  from out obtain sel where sel: "map_of dv (fst d) = Some sel"
    and ev: "name e = fst d" "selectedVersion e = version sel"
    by (auto simp: outdatedEntry_def split: option.splits if_splits)
  from selected_normal [OF maps, of "fst d"] sel ev show ?thesis by simp
qed

lemma outdatedDev_entry:
  assumes maps: "processRepos [] [] repos = Inr (dv, ddv)"
    and r: "r \<in> set repos"
    and e: "e \<in> set (outdatedDev dv ddv r)"
  shows "selection (declared devDependencies repos (name e)) = Some (selectedVersion e)"
proof -
  from e obtain d where d: "d \<in> set (devDependencies r)"
    and out: "outdatedEntry (devSelection dv ddv (fst d)) d = Some e"
    by (auto simp: outdatedDev_def in_map_filter)
  from d have "(fst d, snd d) \<in> set (devDependencies r)" by simp
  with r have "snd d \<in> set (declared devDependencies repos (fst d))"
    unfolding declared_member by blast
  then have "selection (declared devDependencies repos (fst d)) \<noteq> None"
    by (auto simp: selection_None)
  with selected_dev [OF maps, of "fst d"] obtain sel where sel: "map_of ddv (fst d) = Some sel"
    by (cases "map_of ddv (fst d)") auto
  then have "devSelection dv ddv (fst d) = Some sel" by (simp add: devSelection_def)
  with out have ev: "name e = fst d" "selectedVersion e = version sel"
    by (auto simp: outdatedEntry_def split: if_splits)
  from selected_dev [OF maps, of "fst d"] sel ev show ?thesis by simp
qed

lemma selection_declared:
  "selection (declared cls repos n) = Some v \<Longrightarrow> \<exists>r\<in>set repos. (n, v) \<in> set (cls r)"
  using selection_member [of "declared cls repos n" v] by (simp add: declared_member)

lemma devAboveNormal_evaluated:
  "(case mergeDependencies devAboveNormal of
      Inl e \<Rightarrow> False
    | Inr r \<Rightarrow>
        outdatedReports r =
          [\<lparr>repoPath = ''/repos/a'', outdatedDeps =
             [\<lparr>name = ''foo'', currentVersion = ''^1.0.0'', selectedVersion = ''^2.0.0''\<rparr>]\<rparr>] \<and>
        mergedDependencies r ''foo'' = Some ''^1.5.0'' \<and>
        mergedDevDependencies r ''foo'' = None)"
  by code_simp

lemma emptySpecifier_evaluated:
  "(case mergeDependencies emptySpecifier of
      Inl e \<Rightarrow> False
    | Inr r \<Rightarrow>
        mergedDependencies r ''foo'' = Some [] \<and>
        mergedDevDependencies r ''foo'' = Some ''^1.0.0'')"
  by code_simp

text \<open>
  The two merged mappings share no name whose selected normal specifier is not the empty
  string.
\<close>

lemma merged_mappings_disjoint_unless_empty:
  assumes merge: "mergeDependencies repos = Inr result"
    and normal: "mergedDependencies result n = Some v"
    and nonempty: "v \<noteq> []"
  shows "mergedDevDependencies result n = None"
proof -
  obtain dv ddv where maps: "processRepos [] [] repos = Inr (dv, ddv)"
    using processRepos_total by blast
  from normal nonempty have "\<not> falsyProperty (mergedDependencies result) n"
    by (simp add: falsyProperty_def)
  then show ?thesis using mergedDev_lookup [OF merge maps, of n] by (simp split: option.splits)
qed

lemma scenario2_evaluated:
  "(case mergeDependencies scenario2 of
      Inl e \<Rightarrow> False
    | Inr r \<Rightarrow>
        mergedDependencies r ''left-pad'' = Some ''^1.1.0'' \<and>
        mergedDevDependencies r ''left-pad'' = None \<and>
        outdatedReports r = [])"
  by code_simp

section \<open>What holds for every name, and what the key \<open>__proto__\<close> breaks\<close>

text \<open>
  The Selection Entry of a name in a class is parseable and of the highest Concrete Version
  among the parseable specifiers declared for the name in the class, whatever the name.
\<close>

lemma selection_is_highest:
  assumes maps: "processRepos [] [] repos = Inr (depVersions, devDepVersions)"
    and repo: "repo \<in> set repos"
    and parseable: "Normalize specifier = Some c"
  shows "((n, specifier) \<in> set (dependencies repo) \<longrightarrow>
           (\<exists>s cs. map_option version (map_of depVersions n) = Some s \<and> Normalize s = Some cs \<and>
              (\<forall>r\<in>set repos. \<forall>v d.
                 (n, v) \<in> set (dependencies r) \<and> Normalize v = Some d \<longrightarrow> lower d cs \<or> d = cs))) \<and>
         ((n, specifier) \<in> set (devDependencies repo) \<longrightarrow>
           (\<exists>s cs. map_option version (map_of devDepVersions n) = Some s \<and> Normalize s = Some cs \<and>
              (\<forall>r\<in>set repos. \<forall>v d.
                 (n, v) \<in> set (devDependencies r) \<and> Normalize v = Some d \<longrightarrow> lower d cs \<or> d = cs)))"
proof (intro conjI impI)
  assume decl: "(n, specifier) \<in> set (dependencies repo)"
  with repo have "specifier \<in> set (declared dependencies repos n)"
    by (auto simp: declared_member)
  from selection_highest [OF this parseable] obtain s cs
    where s: "selection (declared dependencies repos n) = Some s" "Normalize s = Some cs"
      and top: "\<forall>w\<in>set (declared dependencies repos n). \<forall>d. Normalize w = Some d \<longrightarrow> \<not> lower cs d"
    by blast
  have "map_option version (map_of depVersions n) = Some s"
    using selected_normal [OF maps, of n] s by (simp only:)
  moreover have "\<forall>r\<in>set repos. \<forall>v d.
      (n, v) \<in> set (dependencies r) \<and> Normalize v = Some d \<longrightarrow> lower d cs \<or> d = cs"
    using top by (rule declared_top)
  ultimately show "\<exists>s cs. map_option version (map_of depVersions n) = Some s \<and>
      Normalize s = Some cs \<and>
      (\<forall>r\<in>set repos. \<forall>v d.
         (n, v) \<in> set (dependencies r) \<and> Normalize v = Some d \<longrightarrow> lower d cs \<or> d = cs)"
    using s by blast
next
  assume decl: "(n, specifier) \<in> set (devDependencies repo)"
  with repo have "specifier \<in> set (declared devDependencies repos n)"
    by (auto simp: declared_member)
  from selection_highest [OF this parseable] obtain s cs
    where s: "selection (declared devDependencies repos n) = Some s" "Normalize s = Some cs"
      and top: "\<forall>w\<in>set (declared devDependencies repos n). \<forall>d. Normalize w = Some d \<longrightarrow> \<not> lower cs d"
    by blast
  have "map_option version (map_of devDepVersions n) = Some s"
    using selected_dev [OF maps, of n] s by (simp only:)
  moreover have "\<forall>r\<in>set repos. \<forall>v d.
      (n, v) \<in> set (devDependencies r) \<and> Normalize v = Some d \<longrightarrow> lower d cs \<or> d = cs"
    using top by (rule declared_top)
  ultimately show "\<exists>s cs. map_option version (map_of devDepVersions n) = Some s \<and>
      Normalize s = Some cs \<and>
      (\<forall>r\<in>set repos. \<forall>v d.
         (n, v) \<in> set (devDependencies r) \<and> Normalize v = Some d \<longrightarrow> lower d cs \<or> d = cs)"
    using s by blast
qed

text \<open>
  The merged normal mapping holds the normal-class selection of every name but
  \<open>__proto__\<close>, which it never holds.
\<close>

lemma merged_normal_is_selection:
  assumes "mergeDependencies repos = Inr result"
    and "processRepos [] [] repos = Inr (depVersions, devDepVersions)"
    and "n \<noteq> ''__proto__''"
  shows "mergedDependencies result n = map_option version (map_of depVersions n)"
  using merged_lookup [OF assms(1,2), of n] selected_normal [OF assms(2), of n] assms(3)
  by simp

lemma merged_never_holds_proto:
  assumes "mergeDependencies repos = Inr result"
  shows "mergedDependencies result ''__proto__'' = None"
    and "mergedDevDependencies result ''__proto__'' = None"
proof -
  obtain dv ddv where maps: "processRepos [] [] repos = Inr (dv, ddv)"
    using processRepos_total by blast
  show "mergedDependencies result ''__proto__'' = None"
    using merged_lookup [OF assms maps, of "''__proto__''"] by simp
  show "mergedDevDependencies result ''__proto__'' = None"
    using mergedDev_lookup [OF assms maps, of "''__proto__''"] by simp
qed

text \<open>
  The selected version of an Outdated entry: for a normal-class declaration of a name
  other than \<open>__proto__\<close> it is the value of the merged normal mapping, for a
  development-class declaration it is the development-class selection.
\<close>

lemma outdated_selected_version_unless_proto:
  assumes merge: "mergeDependencies repos = Inr result"
    and maps: "processRepos [] [] repos = Inr (depVersions, devDepVersions)"
    and repo: "repo \<in> set repos"
  shows "(\<forall>e\<in>set (outdatedNormal depVersions repo).
            name e \<noteq> ''__proto__'' \<longrightarrow>
            mergedDependencies result (name e) = Some (selectedVersion e)) \<and>
         (\<forall>e\<in>set (outdatedDev depVersions devDepVersions repo).
            map_option version (map_of devDepVersions (name e)) = Some (selectedVersion e) \<and>
            selection (declared devDependencies repos (name e)) = Some (selectedVersion e))"
proof (intro conjI ballI impI)
  fix e assume "e \<in> set (outdatedNormal depVersions repo)" and "name e \<noteq> ''__proto__''"
  then show "mergedDependencies result (name e) = Some (selectedVersion e)"
    using outdatedNormal_entry [OF maps, of e repo] merged_lookup [OF merge maps, of "name e"]
    by simp
next
  fix e assume e: "e \<in> set (outdatedDev depVersions devDepVersions repo)"
  show "map_option version (map_of devDepVersions (name e)) = Some (selectedVersion e)"
    using outdatedDev_entry [OF maps repo e] selected_dev [OF maps, of "name e"]
    by (simp only:)
next
  fix e assume e: "e \<in> set (outdatedDev depVersions devDepVersions repo)"
  show "selection (declared devDependencies repos (name e)) = Some (selectedVersion e)"
    using maps repo e by (rule outdatedDev_entry)
qed

lemma protoNormal_evaluated:
  "(case mergeDependencies protoNormal of
      Inl e \<Rightarrow> False
    | Inr r \<Rightarrow>
        outdatedReports r =
          [\<lparr>repoPath = ''/repos/a'', outdatedDeps =
             [\<lparr>name = ''__proto__'', currentVersion = ''^1.0.0'',
               selectedVersion = ''^2.0.0''\<rparr>]\<rparr>] \<and>
        mergedDependencies r ''__proto__'' = None)"
  by code_simp

lemma protoNormal_maps:
  "processRepos [] [] protoNormal =
     Inr ([(''__proto__'', \<lparr>version = ''^2.0.0'',
             sources = [(''/repos/a'', ''^1.0.0''), (''/repos/b'', ''^2.0.0'')]\<rparr>)], [])"
  by code_simp

section \<open>The entry a declaration is compared with\<close>

text \<open>
  Every name that a repository of the merge declares in a class has a Selection Entry in
  the class, and the entry holds the selection of the name.
\<close>

lemma normal_entry_exists:
  assumes maps: "processRepos [] [] repos = Inr (dv, ddv)"
    and r: "r \<in> set repos" and d: "(n, v) \<in> set (dependencies r)"
  shows "\<exists>sel. map_of dv n = Some sel \<and>
     selection (declared dependencies repos n) = Some (version sel)"
proof -
  from r d have "v \<in> set (declared dependencies repos n)" unfolding declared_member by blast
  then have "selection (declared dependencies repos n) \<noteq> None" by (auto simp: selection_None)
  with selected_normal [OF maps, of n] show ?thesis by (cases "map_of dv n") auto
qed

text \<open>
  So the lookup \<open>devDepVersions.get(name) || depVersions.get(name)\<close> of the second loop
  of \<open>buildOutdatedReports\<close> always finds the development entry: the normal entry after
  \<open>||\<close> is never taken.
\<close>

lemma dev_fallback_never_taken:
  assumes maps: "processRepos [] [] repos = Inr (dv, ddv)"
    and r: "r \<in> set repos" and d: "(n, v) \<in> set (devDependencies r)"
  shows "\<exists>sel. map_of ddv n = Some sel \<and> devSelection dv ddv n = Some sel \<and>
     selection (declared devDependencies repos n) = Some (version sel)"
proof -
  from r d have "v \<in> set (declared devDependencies repos n)" unfolding declared_member by blast
  then have "selection (declared devDependencies repos n) \<noteq> None"
    by (auto simp: selection_None)
  with selected_dev [OF maps, of n] obtain sel where "map_of ddv n = Some sel"
    and "selection (declared devDependencies repos n) = Some (version sel)"
    by (cases "map_of ddv n") auto
  then show ?thesis by (simp add: devSelection_def)
qed

lemma report_member:
  assumes merge: "mergeDependencies repos = Inr result"
    and maps: "processRepos [] [] repos = Inr (dv, ddv)"
  shows "report \<in> set (outdatedReports result) \<longleftrightarrow>
     (\<exists>r\<in>set repos. outdatedOf dv ddv r \<noteq> [] \<and>
        report = \<lparr>repoPath = path r, outdatedDeps = outdatedOf dv ddv r\<rparr>)"
  unfolding merged_fields(3) [OF merge maps] by auto

lemma outdatedOf_member:
  "e \<in> set (outdatedOf dv ddv r) \<longleftrightarrow>
     (\<exists>d\<in>set (dependencies r). outdatedEntry (map_of dv (fst d)) d = Some e) \<or>
     (\<exists>d\<in>set (devDependencies r). outdatedEntry (devSelection dv ddv (fst d)) d = Some e)"
  by (simp add: outdatedOf_def outdatedNormal_def outdatedDev_def in_map_filter)

lemma scenario1_maps:
  "processRepos [] [] scenario1 =
     Inr ([(''lodash'', \<lparr>version = ''^4.17.21'',
             sources = [(''/repos/a'', ''^4.17.0''), (''/repos/b'', ''^4.17.21''),
                        (''/repos/c'', ''^4.16.0'')]\<rparr>)], [])"
  by code_simp

section \<open>The claims\<close>

text \<open>
  Claim C1 says that for every name that a class declares with a parseable specifier, the
  merged mapping of the class holds a parseable specifier of the highest Concrete Version
  declared. The selection is the highest for every name (\<open>selection_is_highest\<close>), and the
  merged normal mapping holds it for every name but one (\<open>merged_normal_is_selection\<close>):
  the loop that fills the mapping stores nothing for the name \<open>__proto__\<close>. For
  \<open>protoNormal\<close> the normal-class selection of \<open>__proto__\<close> is \<open>^2.0.0\<close> and the merged
  normal mapping has no such name.
\<close>

theorem proto_selection_not_in_merged_mapping:
  "\<exists>result depVersions devDepVersions.
     mergeDependencies protoNormal = Inr result \<and>
     processRepos [] [] protoNormal = Inr (depVersions, devDepVersions) \<and>
     (\<exists>repo\<in>set protoNormal. (''__proto__'', ''^2.0.0'') \<in> set (dependencies repo)) \<and>
     Normalize ''^2.0.0'' = Some \<lparr>major = 2, minor = 0, patch = 0\<rparr> \<and>
     map_option version (map_of depVersions ''__proto__'') = Some ''^2.0.0'' \<and>
     mergedDependencies result ''__proto__'' = None"
proof -
  obtain result where merge: "mergeDependencies protoNormal = Inr result"
    using mergeDependencies_total by blast
  have "mergedDependencies result ''__proto__'' = None"
    using protoNormal_evaluated merge by simp
  moreover have "map_option version
      (map_of [(''__proto__'', \<lparr>version = ''^2.0.0'',
                 sources = [(''/repos/a'', ''^1.0.0''), (''/repos/b'', ''^2.0.0'')]\<rparr>)]
         ''__proto__'') = Some ''^2.0.0''"
    by simp
  moreover have "\<exists>repo\<in>set protoNormal. (''__proto__'', ''^2.0.0'') \<in> set (dependencies repo)"
    by (simp add: protoNormal_def)
  moreover have "Normalize ''^2.0.0'' = Some \<lparr>major = 2, minor = 0, patch = 0\<rparr>"
    by code_simp
  ultimately show ?thesis using merge protoNormal_maps by blast
qed

text \<open>
  Claim C2. \<open>selectHigherVersion\<close> follows the six rules of \<open>SelectHigher\<close>: both
  specifiers unparseable, the first with the first preferred; only the first unparseable,
  the second; only the second unparseable, the first; both parseable, the one with the
  greater Concrete Version; equal Concrete Versions, the first. So
  \<open>selectHigherVersion X X\<close> selects its first argument.
\<close>

theorem selectHigherVersion_policy:
  "selectHigherVersion A B = Inr (SelectHigher A B) \<and>
   (Normalize A = None \<and> Normalize B = None \<longrightarrow>
      selectHigherVersion A B = Inr \<lparr>selected = A, isV1Higher = True\<rparr>) \<and>
   (Normalize A = None \<and> Normalize B = Some b \<longrightarrow>
      selectHigherVersion A B = Inr \<lparr>selected = B, isV1Higher = False\<rparr>) \<and>
   (Normalize A = Some a \<and> Normalize B = None \<longrightarrow>
      selectHigherVersion A B = Inr \<lparr>selected = A, isV1Higher = True\<rparr>) \<and>
   (Normalize A = Some a \<and> Normalize B = Some b \<and> lower b a \<longrightarrow>
      selectHigherVersion A B = Inr \<lparr>selected = A, isV1Higher = True\<rparr>) \<and>
   (Normalize A = Some a \<and> Normalize B = Some b \<and> lower a b \<longrightarrow>
      selectHigherVersion A B = Inr \<lparr>selected = B, isV1Higher = False\<rparr>) \<and>
   (Normalize A = Some a \<and> Normalize B = Some a \<longrightarrow>
      selectHigherVersion A B = Inr \<lparr>selected = A, isV1Higher = True\<rparr>) \<and>
   selectHigherVersion X X = Inr \<lparr>selected = X, isV1Higher = True\<rparr>"
proof -
  have same: "selectHigherVersion X X = Inr \<lparr>selected = X, isV1Higher = True\<rparr>"
    by (cases "Normalize X") (simp_all add: selectHigherVersion_eq SelectHigher_def lower_irrefl)
  have asym: "lower a b \<Longrightarrow> \<not> lower b a" by (rule lower_asym)
  show ?thesis
    using same asym
    by (auto simp: selectHigherVersion_eq SelectHigher_def lower_irrefl)
qed

theorem selectHigherVersion_policy_witness:
  "selectHigherVersion ''latest'' ''workspace:*'' = Inr \<lparr>selected = ''latest'', isV1Higher = True\<rparr> \<and>
   selectHigherVersion ''latest'' ''^2.0.0'' = Inr \<lparr>selected = ''^2.0.0'', isV1Higher = False\<rparr> \<and>
   selectHigherVersion ''^2.0.0'' ''latest'' = Inr \<lparr>selected = ''^2.0.0'', isV1Higher = True\<rparr> \<and>
   selectHigherVersion ''^4.17.21'' ''^4.17.0'' = Inr \<lparr>selected = ''^4.17.21'', isV1Higher = True\<rparr> \<and>
   selectHigherVersion ''^4.17.0'' ''^4.17.21'' = Inr \<lparr>selected = ''^4.17.21'', isV1Higher = False\<rparr> \<and>
   selectHigherVersion ''^1.2.3'' ''~1.2.3'' = Inr \<lparr>selected = ''^1.2.3'', isV1Higher = True\<rparr>"
proof -
  have n1: "Normalize ''latest'' = None" by code_simp
  have n2: "Normalize ''workspace:*'' = None" by code_simp
  have n3: "Normalize ''^2.0.0'' = Some \<lparr>major = 2, minor = 0, patch = 0\<rparr>" by code_simp
  have n4: "Normalize ''^4.17.21'' = Some \<lparr>major = 4, minor = 17, patch = 21\<rparr>" by code_simp
  have n5: "Normalize ''^4.17.0'' = Some \<lparr>major = 4, minor = 17, patch = 0\<rparr>" by code_simp
  have n6: "Normalize ''^1.2.3'' = Some \<lparr>major = 1, minor = 2, patch = 3\<rparr>" by code_simp
  have n7: "Normalize ''~1.2.3'' = Some \<lparr>major = 1, minor = 2, patch = 3\<rparr>" by code_simp
  have lo: "lower \<lparr>major = 4, minor = 17, patch = 0\<rparr> \<lparr>major = 4, minor = 17, patch = 21\<rparr>"
    by (simp add: lower_def)
  have r1: "selectHigherVersion ''latest'' ''workspace:*'' =
      Inr \<lparr>selected = ''latest'', isV1Higher = True\<rparr>"
    using selectHigherVersion_policy [of "''latest''" "''workspace:*''"] n1 n2 by blast
  have r2: "selectHigherVersion ''latest'' ''^2.0.0'' =
      Inr \<lparr>selected = ''^2.0.0'', isV1Higher = False\<rparr>"
    using selectHigherVersion_policy [of "''latest''" "''^2.0.0''"] n1 n3 by blast
  have r3: "selectHigherVersion ''^2.0.0'' ''latest'' =
      Inr \<lparr>selected = ''^2.0.0'', isV1Higher = True\<rparr>"
    using selectHigherVersion_policy [of "''^2.0.0''" "''latest''"] n1 n3 by blast
  have r4: "selectHigherVersion ''^4.17.21'' ''^4.17.0'' =
      Inr \<lparr>selected = ''^4.17.21'', isV1Higher = True\<rparr>"
    using selectHigherVersion_policy [of "''^4.17.21''" "''^4.17.0''"] n4 n5 lo by blast
  have r5: "selectHigherVersion ''^4.17.0'' ''^4.17.21'' =
      Inr \<lparr>selected = ''^4.17.21'', isV1Higher = False\<rparr>"
    using selectHigherVersion_policy [of "''^4.17.0''" "''^4.17.21''"] n4 n5 lo by blast
  have r6: "selectHigherVersion ''^1.2.3'' ''~1.2.3'' =
      Inr \<lparr>selected = ''^1.2.3'', isV1Higher = True\<rparr>"
    using selectHigherVersion_policy [of "''^1.2.3''" "''~1.2.3''"] n6 n7 by blast
  from r1 r2 r3 r4 r5 r6 show ?thesis by blast
qed

text \<open>
  Claim C3 says that the two merged mappings never share a name. The loop that builds the
  development mapping tests the value of the normal mapping for truth, so a name whose
  selected normal specifier is the empty string is not left out: for \<open>emptySpecifier\<close> both
  mappings have the name foo.
\<close>

theorem empty_specifier_shares_key:
  "\<exists>result. mergeDependencies emptySpecifier = Inr result \<and>
     mergedDependencies result ''foo'' = Some [] \<and>
     mergedDevDependencies result ''foo'' = Some ''^1.0.0''"
  using emptySpecifier_evaluated by (cases "mergeDependencies emptySpecifier") auto

text \<open>
  Claim C4. In the result of a merge, the Outdated Reports are made of the Outdated
  entries of the declarations of each repository, and a declaration of a name with a
  specifier has an entry exactly when a Selection Entry exists for the name (one always
  does), the declared and the selected specifier are both parseable, the Concrete Version
  of the declared one is lower, and the two specifiers differ as strings. A normal-class
  declaration is compared with the normal-class entry, a development-class one with the
  entry that \<open>devDepVersions.get(name) || depVersions.get(name)\<close> finds. An unparseable
  specifier, and one equal to the selected specifier, is never in an entry.
\<close>

theorem outdated_entry_emitted_iff:
  assumes merge: "mergeDependencies repos = Inr result"
    and maps: "processRepos [] [] repos = Inr (depVersions, devDepVersions)"
  shows "outdatedReports result =
           map (\<lambda>r. \<lparr>repoPath = path r, outdatedDeps = outdatedOf depVersions devDepVersions r\<rparr>)
             (filter (\<lambda>r. outdatedOf depVersions devDepVersions r \<noteq> []) repos) \<and>
         outdatedOf depVersions devDepVersions repo =
           List.map_filter (\<lambda>d. outdatedEntry (map_of depVersions (fst d)) d)
             (dependencies repo) @
           List.map_filter (\<lambda>d. outdatedEntry (devSelection depVersions devDepVersions (fst d)) d)
             (devDependencies repo) \<and>
         (outdatedEntry selectedEntry (n, v) = Some e \<longleftrightarrow>
            (\<exists>sel c s. selectedEntry = Some sel \<and> Normalize v = Some c \<and>
               Normalize (version sel) = Some s \<and> lower c s \<and> v \<noteq> version sel \<and>
               e = \<lparr>name = n, currentVersion = v, selectedVersion = version sel\<rparr>)) \<and>
         checkOutdated selectedEntry n v out =
           (case selectedEntry of
              None \<Rightarrow> Inr out
            | Some sel \<Rightarrow>
                Inr (if (\<exists>c s. Normalize v = Some c \<and> Normalize (version sel) = Some s \<and>
                           lower c s) \<and> v \<noteq> version sel
                     then out @ [\<lparr>name = n, currentVersion = v, selectedVersion = version sel\<rparr>]
                     else out)) \<and>
         (repo \<in> set repos \<and> (n, v) \<in> set (dependencies repo) \<longrightarrow>
            (\<exists>sel. map_of depVersions n = Some sel \<and>
               selection (declared dependencies repos n) = Some (version sel))) \<and>
         (repo \<in> set repos \<and> (n, v) \<in> set (devDependencies repo) \<longrightarrow>
            (\<exists>sel. devSelection depVersions devDepVersions n = Some sel \<and>
               map_of devDepVersions n = Some sel \<and>
               selection (declared devDependencies repos n) = Some (version sel))) \<and>
         (repo \<in> set repos \<and> (n, v) \<in> set (dependencies repo) \<and>
          map_of depVersions n = Some sel \<and> Normalize v = Some c \<and>
          Normalize (version sel) = Some s \<and> lower c s \<and> v \<noteq> version sel \<longrightarrow>
            (\<exists>report\<in>set (outdatedReports result). repoPath report = path repo \<and>
               \<lparr>name = n, currentVersion = v, selectedVersion = version sel\<rparr>
                 \<in> set (outdatedDeps report))) \<and>
         (repo \<in> set repos \<and> (n, v) \<in> set (devDependencies repo) \<and>
          devSelection depVersions devDepVersions n = Some sel \<and> Normalize v = Some c \<and>
          Normalize (version sel) = Some s \<and> lower c s \<and> v \<noteq> version sel \<longrightarrow>
            (\<exists>report\<in>set (outdatedReports result). repoPath report = path repo \<and>
               \<lparr>name = n, currentVersion = v, selectedVersion = version sel\<rparr>
                 \<in> set (outdatedDeps report))) \<and>
         (\<forall>report\<in>set (outdatedReports result). \<forall>entry\<in>set (outdatedDeps report).
            (\<exists>c s. Normalize (currentVersion entry) = Some c \<and>
               Normalize (selectedVersion entry) = Some s \<and> lower c s) \<and>
            currentVersion entry \<noteq> selectedVersion entry \<and>
            (\<exists>r\<in>set repos. repoPath report = path r \<and>
               (((name entry, currentVersion entry) \<in> set (dependencies r) \<and>
                 map_option version (map_of depVersions (name entry)) =
                   Some (selectedVersion entry)) \<or>
                ((name entry, currentVersion entry) \<in> set (devDependencies r) \<and>
                 map_option version (devSelection depVersions devDepVersions (name entry)) =
                   Some (selectedVersion entry)))))"
proof (intro conjI)
  show "outdatedReports result =
      map (\<lambda>r. \<lparr>repoPath = path r, outdatedDeps = outdatedOf depVersions devDepVersions r\<rparr>)
        (filter (\<lambda>r. outdatedOf depVersions devDepVersions r \<noteq> []) repos)"
    by (rule merged_fields(3) [OF merge maps])
next
  show "outdatedOf depVersions devDepVersions repo =
      List.map_filter (\<lambda>d. outdatedEntry (map_of depVersions (fst d)) d) (dependencies repo) @
      List.map_filter (\<lambda>d. outdatedEntry (devSelection depVersions devDepVersions (fst d)) d)
        (devDependencies repo)"
    by (simp add: outdatedOf_def outdatedNormal_def outdatedDev_def)
next
  show "outdatedEntry selectedEntry (n, v) = Some e \<longleftrightarrow>
      (\<exists>sel c s. selectedEntry = Some sel \<and> Normalize v = Some c \<and>
         Normalize (version sel) = Some s \<and> lower c s \<and> v \<noteq> version sel \<and>
         e = \<lparr>name = n, currentVersion = v, selectedVersion = version sel\<rparr>)"
    by (rule outdatedEntry_Some)
next
  show "checkOutdated selectedEntry n v out =
      (case selectedEntry of
         None \<Rightarrow> Inr out
       | Some sel \<Rightarrow>
           Inr (if (\<exists>c s. Normalize v = Some c \<and> Normalize (version sel) = Some s \<and>
                      lower c s) \<and> v \<noteq> version sel
                then out @ [\<lparr>name = n, currentVersion = v, selectedVersion = version sel\<rparr>]
                else out))"
    by (auto simp: checkOutdated_eq outdatedEntry_def IsLower_def split: option.splits)
next
  show "repo \<in> set repos \<and> (n, v) \<in> set (dependencies repo) \<longrightarrow>
      (\<exists>sel. map_of depVersions n = Some sel \<and>
         selection (declared dependencies repos n) = Some (version sel))"
    using normal_entry_exists [OF maps] by blast
next
  show "repo \<in> set repos \<and> (n, v) \<in> set (devDependencies repo) \<longrightarrow>
      (\<exists>sel. devSelection depVersions devDepVersions n = Some sel \<and>
         map_of devDepVersions n = Some sel \<and>
         selection (declared devDependencies repos n) = Some (version sel))"
    using dev_fallback_never_taken [OF maps] by blast
next
  show "repo \<in> set repos \<and> (n, v) \<in> set (dependencies repo) \<and>
      map_of depVersions n = Some sel \<and> Normalize v = Some c \<and>
      Normalize (version sel) = Some s \<and> lower c s \<and> v \<noteq> version sel \<longrightarrow>
      (\<exists>report\<in>set (outdatedReports result). repoPath report = path repo \<and>
         \<lparr>name = n, currentVersion = v, selectedVersion = version sel\<rparr>
           \<in> set (outdatedDeps report))"
  proof
    assume h: "repo \<in> set repos \<and> (n, v) \<in> set (dependencies repo) \<and>
      map_of depVersions n = Some sel \<and> Normalize v = Some c \<and>
      Normalize (version sel) = Some s \<and> lower c s \<and> v \<noteq> version sel"
    let ?e = "\<lparr>name = n, currentVersion = v, selectedVersion = version sel\<rparr>"
    from h have "outdatedEntry (map_of depVersions (fst (n, v))) (n, v) = Some ?e"
      by (simp add: outdatedEntry_Some)
    with h have e: "?e \<in> set (outdatedOf depVersions devDepVersions repo)"
      unfolding outdatedOf_member by blast
    then have "outdatedOf depVersions devDepVersions repo \<noteq> []" by auto
    with h have "\<lparr>repoPath = path repo,
        outdatedDeps = outdatedOf depVersions devDepVersions repo\<rparr> \<in> set (outdatedReports result)"
      unfolding report_member [OF merge maps] by blast
    with e show "\<exists>report\<in>set (outdatedReports result). repoPath report = path repo \<and>
        ?e \<in> set (outdatedDeps report)"
      by force
  qed
next
  show "repo \<in> set repos \<and> (n, v) \<in> set (devDependencies repo) \<and>
      devSelection depVersions devDepVersions n = Some sel \<and> Normalize v = Some c \<and>
      Normalize (version sel) = Some s \<and> lower c s \<and> v \<noteq> version sel \<longrightarrow>
      (\<exists>report\<in>set (outdatedReports result). repoPath report = path repo \<and>
         \<lparr>name = n, currentVersion = v, selectedVersion = version sel\<rparr>
           \<in> set (outdatedDeps report))"
  proof
    assume h: "repo \<in> set repos \<and> (n, v) \<in> set (devDependencies repo) \<and>
      devSelection depVersions devDepVersions n = Some sel \<and> Normalize v = Some c \<and>
      Normalize (version sel) = Some s \<and> lower c s \<and> v \<noteq> version sel"
    let ?e = "\<lparr>name = n, currentVersion = v, selectedVersion = version sel\<rparr>"
    from h have "outdatedEntry (devSelection depVersions devDepVersions (fst (n, v))) (n, v) =
        Some ?e"
      by (simp add: outdatedEntry_Some)
    with h have e: "?e \<in> set (outdatedOf depVersions devDepVersions repo)"
      unfolding outdatedOf_member by blast
    then have "outdatedOf depVersions devDepVersions repo \<noteq> []" by auto
    with h have "\<lparr>repoPath = path repo,
        outdatedDeps = outdatedOf depVersions devDepVersions repo\<rparr> \<in> set (outdatedReports result)"
      unfolding report_member [OF merge maps] by blast
    with e show "\<exists>report\<in>set (outdatedReports result). repoPath report = path repo \<and>
        ?e \<in> set (outdatedDeps report)"
      by force
  qed
next
  show "\<forall>report\<in>set (outdatedReports result). \<forall>entry\<in>set (outdatedDeps report).
      (\<exists>c s. Normalize (currentVersion entry) = Some c \<and>
         Normalize (selectedVersion entry) = Some s \<and> lower c s) \<and>
      currentVersion entry \<noteq> selectedVersion entry \<and>
      (\<exists>r\<in>set repos. repoPath report = path r \<and>
         (((name entry, currentVersion entry) \<in> set (dependencies r) \<and>
           map_option version (map_of depVersions (name entry)) =
             Some (selectedVersion entry)) \<or>
          ((name entry, currentVersion entry) \<in> set (devDependencies r) \<and>
           map_option version (devSelection depVersions devDepVersions (name entry)) =
             Some (selectedVersion entry))))"
  proof (intro ballI)
    fix report entry
    assume rep: "report \<in> set (outdatedReports result)"
      and ent: "entry \<in> set (outdatedDeps report)"
    from rep obtain r where r: "r \<in> set repos" "repoPath report = path r"
      "outdatedDeps report = outdatedOf depVersions devDepVersions r"
      unfolding report_member [OF merge maps] by auto
    from ent r(3) have "entry \<in> set (outdatedOf depVersions devDepVersions r)" by simp
    then consider
      (normal) d where "d \<in> set (dependencies r)"
        "outdatedEntry (map_of depVersions (fst d)) d = Some entry"
      | (dev) d where "d \<in> set (devDependencies r)"
        "outdatedEntry (devSelection depVersions devDepVersions (fst d)) d = Some entry"
      unfolding outdatedOf_member by auto
    then show "(\<exists>c s. Normalize (currentVersion entry) = Some c \<and>
         Normalize (selectedVersion entry) = Some s \<and> lower c s) \<and>
      currentVersion entry \<noteq> selectedVersion entry \<and>
      (\<exists>r\<in>set repos. repoPath report = path r \<and>
         (((name entry, currentVersion entry) \<in> set (dependencies r) \<and>
           map_option version (map_of depVersions (name entry)) =
             Some (selectedVersion entry)) \<or>
          ((name entry, currentVersion entry) \<in> set (devDependencies r) \<and>
           map_option version (devSelection depVersions devDepVersions (name entry)) =
             Some (selectedVersion entry))))"
    proof cases
      case normal
      obtain n' v' where d: "d = (n', v')" by (cases d)
      from normal(2) obtain sel' c' s' where
        "map_of depVersions n' = Some sel'" "Normalize v' = Some c'"
        "Normalize (version sel') = Some s'" "lower c' s'" "v' \<noteq> version sel'"
        "entry = \<lparr>name = n', currentVersion = v', selectedVersion = version sel'\<rparr>"
        unfolding d outdatedEntry_Some by auto
      with normal(1) d r show ?thesis by auto
    next
      case dev
      obtain n' v' where d: "d = (n', v')" by (cases d)
      from dev(2) obtain sel' c' s' where
        "devSelection depVersions devDepVersions n' = Some sel'" "Normalize v' = Some c'"
        "Normalize (version sel') = Some s'" "lower c' s'" "v' \<noteq> version sel'"
        "entry = \<lparr>name = n', currentVersion = v', selectedVersion = version sel'\<rparr>"
        unfolding d outdatedEntry_Some by auto
      with dev(1) d r show ?thesis by auto
    qed
  qed
qed

theorem outdated_entry_emitted_iff_witness:
  "\<exists>result. mergeDependencies scenario1 = Inr result \<and>
     (\<exists>report\<in>set (outdatedReports result). repoPath report = ''/repos/a'' \<and>
        \<lparr>name = ''lodash'', currentVersion = ''^4.17.0'', selectedVersion = ''^4.17.21''\<rparr>
          \<in> set (outdatedDeps report)) \<and>
     (\<exists>sel. map_of
         [(''lodash'', \<lparr>version = ''^4.17.21'',
            sources = [(''/repos/a'', ''^4.17.0''), (''/repos/b'', ''^4.17.21''),
                       (''/repos/c'', ''^4.16.0'')]\<rparr>)] ''lodash'' = Some sel \<and>
        selection (declared dependencies scenario1 ''lodash'') = Some (version sel))"
proof -
  obtain result where merge: "mergeDependencies scenario1 = Inr result"
    using mergeDependencies_total by blast
  let ?a = "\<lparr>path = ''/repos/a'', dependencies = [(''lodash'', ''^4.17.0'')], devDependencies = []\<rparr>"
  let ?sel = "\<lparr>version = ''^4.17.21'',
      sources = [(''/repos/a'', ''^4.17.0''), (''/repos/b'', ''^4.17.21''),
                 (''/repos/c'', ''^4.16.0'')]\<rparr>"
  let ?dv = "[(''lodash'', ?sel)]"
  have a: "?a \<in> set scenario1" by (simp add: scenario1_def)
  have d: "(''lodash'', ''^4.17.0'') \<in> set (dependencies ?a)" by simp
  have look: "map_of ?dv ''lodash'' = Some ?sel" by simp
  have c: "Normalize ''^4.17.0'' = Some \<lparr>major = 4, minor = 17, patch = 0\<rparr>" by code_simp
  have s: "Normalize (version ?sel) = Some \<lparr>major = 4, minor = 17, patch = 21\<rparr>" by code_simp
  have lo: "lower \<lparr>major = 4, minor = 17, patch = 0\<rparr> \<lparr>major = 4, minor = 17, patch = 21\<rparr>"
    by (simp add: lower_def)
  have ne: "''^4.17.0'' \<noteq> version ?sel" by simp
  note inst = outdated_entry_emitted_iff [OF merge scenario1_maps,
      of ?a _ "''lodash''" "''^4.17.0''" _ _ ?sel
        "\<lparr>major = 4, minor = 17, patch = 0\<rparr>" "\<lparr>major = 4, minor = 17, patch = 21\<rparr>"]
  from inst a d look c s lo ne
  have "\<exists>report\<in>set (outdatedReports result). repoPath report = path ?a \<and>
      \<lparr>name = ''lodash'', currentVersion = ''^4.17.0'', selectedVersion = version ?sel\<rparr>
        \<in> set (outdatedDeps report)"
    by blast
  then have emitted: "\<exists>report\<in>set (outdatedReports result). repoPath report = ''/repos/a'' \<and>
      \<lparr>name = ''lodash'', currentVersion = ''^4.17.0'', selectedVersion = ''^4.17.21''\<rparr>
        \<in> set (outdatedDeps report)"
    by simp
  from inst a d
  have "\<exists>sel. map_of ?dv ''lodash'' = Some sel \<and>
      selection (declared dependencies scenario1 ''lodash'') = Some (version sel)"
    by blast
  with merge emitted show ?thesis by blast
qed

text \<open>
  Claim C5 says that in scenario 2 repository A, which declares left-pad \<open>^1.0.0\<close> as a
  development dependency while the merged normal mapping holds \<open>^1.1.0\<close>, gets an
  Outdated entry for left-pad. It gets none: the Outdated Reports of scenario 2 are empty.
  The lookup of the loop names the normal entry after \<open>||\<close>, but the development entry
  is always there (\<open>dev_fallback_never_taken\<close>), and it holds the specifier of A itself.
\<close>

theorem scenario2_no_outdated_report:
  "map_sum id outdatedReports (mergeDependencies scenario2) = Inr []"
  using scenario2_evaluated by (cases "mergeDependencies scenario2") auto

text \<open>
  Claim C6. The Outdated Reports hold one report for each repository that has an
  Outdated entry and none for a repository without one; the reports come in the order of
  the repositories, and the entries of a report are those of the normal class followed by
  those of the development class, each in the order of the declarations.
\<close>

theorem outdated_reports_grouped:
  assumes merge: "mergeDependencies repos = Inr result"
    and maps: "processRepos [] [] repos = Inr (depVersions, devDepVersions)"
  shows "outdatedReports result =
           map (\<lambda>r. \<lparr>repoPath = path r, outdatedDeps = outdatedOf depVersions devDepVersions r\<rparr>)
             (filter (\<lambda>r. outdatedOf depVersions devDepVersions r \<noteq> []) repos) \<and>
         list_all (\<lambda>report. outdatedDeps report \<noteq> []) (outdatedReports result) \<and>
         subseq (map repoPath (outdatedReports result)) (map path repos) \<and>
         checkDependencies depVersions (dependencies repo) [] =
           Inr (outdatedNormal depVersions repo) \<and>
         checkDevDependencies depVersions devDepVersions (devDependencies repo)
             (outdatedNormal depVersions repo) =
           Inr (outdatedOf depVersions devDepVersions repo) \<and>
         subseq (map (\<lambda>e. (name e, currentVersion e)) (outdatedNormal depVersions repo))
           (dependencies repo) \<and>
         subseq (map (\<lambda>e. (name e, currentVersion e)) (outdatedDev depVersions devDepVersions repo))
           (devDependencies repo)"
proof -
  from merge mergeDependencies_eq [OF maps]
  have reports: "outdatedReports result =
      map (\<lambda>r. \<lparr>repoPath = path r, outdatedDeps = outdatedOf depVersions devDepVersions r\<rparr>)
        (filter (\<lambda>r. outdatedOf depVersions devDepVersions r \<noteq> []) repos)"
    by auto
  have nonempty: "list_all (\<lambda>report. outdatedDeps report \<noteq> []) (outdatedReports result)"
    unfolding reports by (simp add: list_all_iff)
  have order: "subseq (map repoPath (outdatedReports result)) (map path repos)"
    unfolding reports by (rule reports_subseq)
  have normal: "checkDependencies depVersions (dependencies repo) [] =
      Inr (outdatedNormal depVersions repo)"
    by (simp add: checkDependencies_eq outdatedNormal_def)
  have dev: "checkDevDependencies depVersions devDepVersions (devDependencies repo)
      (outdatedNormal depVersions repo) = Inr (outdatedOf depVersions devDepVersions repo)"
    by (simp add: checkDevDependencies_eq outdatedOf_def outdatedDev_def)
  from reports nonempty order normal dev outdatedNormal_subseq outdatedDev_subseq
  show ?thesis by blast
qed

theorem outdated_reports_grouped_witness:
  "\<exists>result dv ddv. mergeDependencies scenario1 = Inr result \<and>
     processRepos [] [] scenario1 = Inr (dv, ddv) \<and>
     outdatedReports result =
       [\<lparr>repoPath = ''/repos/a'', outdatedDeps =
           [\<lparr>name = ''lodash'', currentVersion = ''^4.17.0'', selectedVersion = ''^4.17.21''\<rparr>]\<rparr>,
        \<lparr>repoPath = ''/repos/c'', outdatedDeps =
           [\<lparr>name = ''lodash'', currentVersion = ''^4.16.0'', selectedVersion = ''^4.17.21''\<rparr>]\<rparr>] \<and>
     outdatedReports result =
       map (\<lambda>r. \<lparr>repoPath = path r, outdatedDeps = outdatedOf dv ddv r\<rparr>)
         (filter (\<lambda>r. outdatedOf dv ddv r \<noteq> []) scenario1) \<and>
     subseq (map repoPath (outdatedReports result)) (map path scenario1)"
proof -
  obtain result where merge: "mergeDependencies scenario1 = Inr result"
    using mergeDependencies_total by blast
  obtain dv ddv where maps: "processRepos [] [] scenario1 = Inr (dv, ddv)"
    using processRepos_total by blast
  from scenario1_reports merge have "outdatedReports result =
       [\<lparr>repoPath = ''/repos/a'', outdatedDeps =
           [\<lparr>name = ''lodash'', currentVersion = ''^4.17.0'', selectedVersion = ''^4.17.21''\<rparr>]\<rparr>,
        \<lparr>repoPath = ''/repos/c'', outdatedDeps =
           [\<lparr>name = ''lodash'', currentVersion = ''^4.16.0'', selectedVersion = ''^4.17.21''\<rparr>]\<rparr>]"
    by simp
  with outdated_reports_grouped [OF merge maps] merge maps show ?thesis by blast
qed

text \<open>
  Claim C7. The merge is total: for every list of repositories, whatever strings their
  specifiers are, \<open>mergeDependencies\<close> returns a result and raises nothing. The empty
  specifier and every specifier without a digit are unparseable: \<open>cleanVersion\<close> returns
  null for them and throws nothing.
\<close>

theorem mergeDependencies_never_raises:
  "(\<exists>result. mergeDependencies repos = Inr result) \<and>
   cleanVersion [] = None \<and>
   (list_all (\<lambda>c. \<not> isDigit c) specifier \<longrightarrow> cleanVersion specifier = None)"
  using mergeDependencies_total [of repos] cleanVersion_no_digit [of specifier]
    cleanVersion_no_digit [of "[]"]
  by simp

theorem mergeDependencies_never_raises_witness:
  "(\<exists>result. mergeDependencies scenario3 = Inr result) \<and>
   cleanVersion [] = None \<and>
   cleanVersion ''git+https://example.com/x.git'' = None"
proof -
  have h: "list_all (\<lambda>c. \<not> isDigit c) ''git+https://example.com/x.git''" by code_simp
  from mergeDependencies_never_raises [of scenario3 "''git+https://example.com/x.git''"] h
  show ?thesis by blast
qed

text \<open>
  Claim C8. For parseable specifiers \<open>A\<close> and \<open>B\<close> where the Concrete Version of \<open>A\<close> is
  the greater, \<open>selectHigherVersion A B\<close> and \<open>selectHigherVersion B A\<close> both select \<open>A\<close>; the
  flag is true in the first call and false in the second.
\<close>

theorem selected_value_order_independent:
  assumes "Normalize A = Some a" and "Normalize B = Some b" and "lower b a"
  shows "selectHigherVersion A B = Inr \<lparr>selected = A, isV1Higher = True\<rparr> \<and>
         selectHigherVersion B A = Inr \<lparr>selected = A, isV1Higher = False\<rparr>"
  using assms lower_asym [of b a]
  by (simp add: selectHigherVersion_eq SelectHigher_def)

theorem selected_value_order_independent_witness:
  "selectHigherVersion ''^4.17.21'' ''^4.17.0'' = Inr \<lparr>selected = ''^4.17.21'', isV1Higher = True\<rparr> \<and>
   selectHigherVersion ''^4.17.0'' ''^4.17.21'' = Inr \<lparr>selected = ''^4.17.21'', isV1Higher = False\<rparr>"
proof -
  have a: "Normalize ''^4.17.21'' = Some \<lparr>major = 4, minor = 17, patch = 21\<rparr>" by code_simp
  have b: "Normalize ''^4.17.0'' = Some \<lparr>major = 4, minor = 17, patch = 0\<rparr>" by code_simp
  have lo: "lower \<lparr>major = 4, minor = 17, patch = 0\<rparr> \<lparr>major = 4, minor = 17, patch = 21\<rparr>"
    by (simp add: lower_def)
  show ?thesis by (rule selected_value_order_independent [OF a b lo])
qed

text \<open>
  Claim C9. Every specifier in the output was declared as it stands: a value of the
  merged normal mapping by some repository for that name as a normal dependency, a value
  of the merged development mapping by some repository for that name as a development
  dependency, and the selected version of an Outdated entry by some repository for that
  name in the class of the declaration the entry was made for.
\<close>

theorem output_specifiers_declared:
  assumes merge: "mergeDependencies repos = Inr result"
    and maps: "processRepos [] [] repos = Inr (depVersions, devDepVersions)"
  shows "(mergedDependencies result n = Some v \<longrightarrow>
            (\<exists>r\<in>set repos. (n, v) \<in> set (dependencies r))) \<and>
         (mergedDevDependencies result n = Some v \<longrightarrow>
            (\<exists>r\<in>set repos. (n, v) \<in> set (devDependencies r))) \<and>
         (\<forall>report\<in>set (outdatedReports result). \<exists>r\<in>set repos.
            repoPath report = path r \<and>
            outdatedDeps report =
              outdatedNormal depVersions r @ outdatedDev depVersions devDepVersions r) \<and>
         (\<forall>r\<in>set repos.
            (\<forall>e\<in>set (outdatedNormal depVersions r).
               \<exists>r'\<in>set repos. (name e, selectedVersion e) \<in> set (dependencies r')) \<and>
            (\<forall>e\<in>set (outdatedDev depVersions devDepVersions r).
               \<exists>r'\<in>set repos. (name e, selectedVersion e) \<in> set (devDependencies r')))"
proof (intro conjI impI ballI)
  assume "mergedDependencies result n = Some v"
  then have "selection (declared dependencies repos n) = Some v"
    using merged_lookup [OF merge maps, of n] by (simp split: if_splits)
  then show "\<exists>r\<in>set repos. (n, v) \<in> set (dependencies r)" by (rule selection_declared)
next
  assume "mergedDevDependencies result n = Some v"
  then have "selection (declared devDependencies repos n) = Some v"
    using mergedDev_lookup [OF merge maps, of n]
    by (auto split: option.splits if_splits)
  then show "\<exists>r\<in>set repos. (n, v) \<in> set (devDependencies r)" by (rule selection_declared)
next
  fix report assume "report \<in> set (outdatedReports result)"
  then show "\<exists>r\<in>set repos. repoPath report = path r \<and>
      outdatedDeps report = outdatedNormal depVersions r @ outdatedDev depVersions devDepVersions r"
    unfolding merged_fields(3) [OF merge maps] by (auto simp: outdatedOf_def)
next
  fix r e assume "r \<in> set repos" "e \<in> set (outdatedNormal depVersions r)"
  then have "selection (declared dependencies repos (name e)) = Some (selectedVersion e)"
    using outdatedNormal_entry [OF maps] by blast
  then show "\<exists>r'\<in>set repos. (name e, selectedVersion e) \<in> set (dependencies r')"
    by (rule selection_declared)
next
  fix r e assume "r \<in> set repos" "e \<in> set (outdatedDev depVersions devDepVersions r)"
  then have "selection (declared devDependencies repos (name e)) = Some (selectedVersion e)"
    using outdatedDev_entry [OF maps] by blast
  then show "\<exists>r'\<in>set repos. (name e, selectedVersion e) \<in> set (devDependencies r')"
    by (rule selection_declared)
qed

theorem output_specifiers_declared_witness:
  "\<exists>result. mergeDependencies scenario1 = Inr result \<and>
     mergedDependencies result ''lodash'' = Some ''^4.17.21'' \<and>
     (\<exists>r\<in>set scenario1. (''lodash'', ''^4.17.21'') \<in> set (dependencies r))"
proof -
  obtain result where merge: "mergeDependencies scenario1 = Inr result"
    using mergeDependencies_total by blast
  obtain dv ddv where maps: "processRepos [] [] scenario1 = Inr (dv, ddv)"
    using processRepos_total by blast
  from scenario1_evaluated merge
  have v: "mergedDependencies result ''lodash'' = Some ''^4.17.21''" by simp
  with output_specifiers_declared [OF merge maps, of "''lodash''" "''^4.17.21''"]
  have "\<exists>r\<in>set scenario1. (''lodash'', ''^4.17.21'') \<in> set (dependencies r)" by blast
  with merge v show ?thesis by blast
qed

text \<open>
  Claim C10 says that the selected version of an Outdated entry made for a normal-class
  declaration is the value of the merged normal mapping for the name, and that the selected
  version of an entry made for a development-class declaration is the development-class
  selection. The second holds, and the first holds for every name but \<open>__proto__\<close>
  (\<open>outdated_selected_version_unless_proto\<close>), which the merged normal mapping never holds:
  for \<open>protoNormal\<close> repository A has an entry for \<open>__proto__\<close> with the selected version
  \<open>^2.0.0\<close>, and the merged normal mapping has no such name. A development-class selection
  may be in neither merged mapping (\<open>devAboveNormal_evaluated\<close>).
\<close>

theorem proto_outdated_entry_not_in_merged_mapping:
  "\<exists>result. mergeDependencies protoNormal = Inr result \<and>
     outdatedReports result =
       [\<lparr>repoPath = ''/repos/a'', outdatedDeps =
          [\<lparr>name = ''__proto__'', currentVersion = ''^1.0.0'',
            selectedVersion = ''^2.0.0''\<rparr>]\<rparr>] \<and>
     mergedDependencies result ''__proto__'' = None"
  using protoNormal_evaluated by (cases "mergeDependencies protoNormal") auto

end
